theory Spec2Isabelle
  imports Main
begin

section \<open>Data of the chat server\<close>

text \<open>
  The Go struct \<^verbatim>\<open>Message\<close> (the JSON shape of requests, responses and delivery
  events) and the struct \<^verbatim>\<open>Client\<close>. Go's \<^verbatim>\<open>int\<close> counters are modelled as
  unbounded integers: the handlers only ever add 1 or -1 per request. A WebSocket
  connection \<^verbatim>\<open>*websocket.Conn\<close> is a handle, modelled as a natural number.
\<close>

record Message =
  ID :: string
  Sender :: string
  Receiver :: string
  Content :: string
  Upvotes :: int
  Downvotes :: int

record Client =
  UserID :: string
  Conn :: nat

text \<open>
  Modelled from the spec: the schema files \<^verbatim>\<open>create_table_messages.sql\<close> and
  \<^verbatim>\<open>create_table_user_votes.sql\<close> are missing from the sources. The columns are those
  the queries of the handlers name (and section 6 of the specification lists):
  \<^verbatim>\<open>messages(id, sender, receiver, content, upvotes, downvotes, timestamp)\<close> and
  \<^verbatim>\<open>user_votes(user_id, message_id, vote_type)\<close>. A table is the list of its rows in
  insertion order, which for \<^verbatim>\<open>messages\<close> is the order of the \<^verbatim>\<open>timestamp\<close> column;
  \<^verbatim>\<open>next_id\<close> is the sequence behind the \<^verbatim>\<open>id\<close> column (\<^verbatim>\<open>RETURNING id\<close>).
  No uniqueness constraint is built into the tables: a statement that a constraint
  rejects is one of the statement failures of \<^verbatim>\<open>faults\<close> below.
\<close>

record message_row =
  m_id :: int
  m_sender :: string
  m_receiver :: string
  m_content :: string
  m_upvotes :: int
  m_downvotes :: int

record vote_row =
  v_user_id :: string
  v_message_id :: int
  v_vote_type :: string

record database =
  messages :: "message_row list"
  user_votes :: "vote_row list"
  next_id :: int

text \<open>
  The global variables of the server: the PostgreSQL handle \<^verbatim>\<open>db\<close>, the Redis handle
  \<^verbatim>\<open>rdb\<close> (a hash per key) and the map \<^verbatim>\<open>clients\<close>. Two more components record what
  the server does to its connections: \<^verbatim>\<open>closed\<close>, the connections on which
  \<^verbatim>\<open>Close\<close> was called, and \<^verbatim>\<open>sent\<close>, the log of the successful \<^verbatim>\<open>WriteJSON\<close>
  calls in order.
\<close>

record state =
  db :: database
  rdb :: "string \<Rightarrow> string \<rightharpoonup> int"
  clients :: "string \<rightharpoonup> Client"
  closed :: "nat set"
  sent :: "(nat \<times> Message) list"

text \<open>
  What the environment decides in one request: which statement, cache write, commit or
  socket write returns an error. Every handler takes such a record, so each error branch
  of the source is a branch of the model.
\<close>

record faults =
  bind_fails :: bool
  begin_fails :: bool
  select_vote_fails :: bool
  select_counts_fails :: bool
  exec_vote_fails :: bool
  update_counts_fails :: bool
  hset_upvotes_fails :: bool
  hset_downvotes_fails :: bool
  commit_fails :: bool
  select_message_fails :: bool
  insert_message_fails :: bool
  select_messages_fails :: bool
  sender_write_fails :: bool
  receiver_write_fails :: bool

datatype body =
  ErrorBody string
  | TextBody string
  | MessageBody Message
  | MessagesBody "Message list"

record response =
  status :: nat
  payload :: body

definition StatusOK :: nat where "StatusOK = 200"
definition StatusCreated :: nat where "StatusCreated = 201"
definition StatusBadRequest :: nat where "StatusBadRequest = 400"
definition StatusNotFound :: nat where "StatusNotFound = 404"
definition StatusInternalServerError :: nat where "StatusInternalServerError = 500"

definition json_error :: "nat \<Rightarrow> string \<Rightarrow> response" where
  "json_error code msg = \<lparr>status = code, payload = ErrorBody msg\<rparr>"

section \<open>Formatting\<close>

text \<open>\<^verbatim>\<open>fmt.Sprintf("%d", id)\<close>: the decimal form of an integer.\<close>

definition digit_char :: "nat \<Rightarrow> char" where
  "digit_char d = ''0123456789'' ! d"

function digits :: "nat \<Rightarrow> string" where
  "digits n = (if n < 10 then [digit_char n] else digits (n div 10) @ [digit_char (n mod 10)])"
  by pat_completeness auto
termination
  by (relation "measure (\<lambda>n. n)") auto

declare digits.simps [simp del]

definition fmt_d :: "int \<Rightarrow> string" where
  "fmt_d i = (if i < 0 then CHR ''-'' # digits (nat (- i)) else digits (nat i))"

text \<open>\<^verbatim>\<open>fmt.Sprintf("message:%s", messageId)\<close>, the Redis key of a message: the
  prefix and the text of the path parameter as it came.\<close>

definition cache_key :: "string \<Rightarrow> string" where
  "cache_key messageId = ''message:'' @ messageId"

section \<open>SQL statements\<close>

definition vote_matches :: "string \<Rightarrow> int \<Rightarrow> vote_row \<Rightarrow> bool" where
  "vote_matches userId messageId v \<longleftrightarrow> v_user_id v = userId \<and> v_message_id v = messageId"

text \<open>\<^verbatim>\<open>SELECT vote_type FROM user_votes WHERE user_id = $1 AND message_id = $2\<close>,
  read by \<^verbatim>\<open>QueryRow\<close>: the first matching row, \<^verbatim>\<open>None\<close> for \<^verbatim>\<open>sql.ErrNoRows\<close>.\<close>

definition select_vote_type :: "vote_row list \<Rightarrow> string \<Rightarrow> int \<Rightarrow> string option" where
  "select_vote_type vs userId messageId =
     map_option v_vote_type (find (vote_matches userId messageId) vs)"

text \<open>\<^verbatim>\<open>DELETE FROM user_votes WHERE user_id = $1 AND message_id = $2\<close>\<close>

definition delete_vote :: "vote_row list \<Rightarrow> string \<Rightarrow> int \<Rightarrow> vote_row list" where
  "delete_vote vs userId messageId = filter (\<lambda>v. \<not> vote_matches userId messageId v) vs"

text \<open>\<^verbatim>\<open>UPDATE user_votes SET vote_type = t WHERE user_id = $1 AND message_id = $2\<close>\<close>

definition update_vote :: "vote_row list \<Rightarrow> string \<Rightarrow> int \<Rightarrow> string \<Rightarrow> vote_row list" where
  "update_vote vs userId messageId t =
     map (\<lambda>v. if vote_matches userId messageId v then v\<lparr>v_vote_type := t\<rparr> else v) vs"

text \<open>\<^verbatim>\<open>INSERT INTO user_votes (user_id, message_id, vote_type) VALUES ($1, $2, t)\<close>\<close>

definition insert_vote :: "vote_row list \<Rightarrow> string \<Rightarrow> int \<Rightarrow> string \<Rightarrow> vote_row list" where
  "insert_vote vs userId messageId t =
     vs @ [\<lparr>v_user_id = userId, v_message_id = messageId, v_vote_type = t\<rparr>]"

text \<open>\<^verbatim>\<open>SELECT upvotes, downvotes FROM messages WHERE id = $1\<close>, read by \<^verbatim>\<open>QueryRow\<close>.\<close>

definition select_counts :: "message_row list \<Rightarrow> int \<Rightarrow> (int \<times> int) option" where
  "select_counts ms messageId =
     map_option (\<lambda>r. (m_upvotes r, m_downvotes r)) (find (\<lambda>r. m_id r = messageId) ms)"

text \<open>\<^verbatim>\<open>UPDATE messages SET upvotes = upvotes + $1, downvotes = downvotes + $2 WHERE id = $3\<close>\<close>

definition update_counts :: "message_row list \<Rightarrow> int \<Rightarrow> int \<Rightarrow> int \<Rightarrow> message_row list" where
  "update_counts ms upvotesChange downvotesChange messageId =
     map (\<lambda>r. if m_id r = messageId
               then r\<lparr>m_upvotes := m_upvotes r + upvotesChange,
                      m_downvotes := m_downvotes r + downvotesChange\<rparr>
               else r) ms"

text \<open>A row of \<^verbatim>\<open>messages\<close> scanned into a \<^verbatim>\<open>Message\<close>; the integer id is scanned into
  the string field \<^verbatim>\<open>ID\<close>.\<close>

definition scan_message :: "message_row \<Rightarrow> Message" where
  "scan_message r =
     \<lparr>ID = fmt_d (m_id r), Sender = m_sender r, Receiver = m_receiver r,
      Content = m_content r, Upvotes = m_upvotes r, Downvotes = m_downvotes r\<rparr>"

text \<open>\<^verbatim>\<open>SELECT id, sender, receiver, content, upvotes, downvotes FROM messages WHERE id = $1\<close>\<close>

definition select_message :: "message_row list \<Rightarrow> int \<Rightarrow> Message option" where
  "select_message ms messageId = map_option scan_message (find (\<lambda>r. m_id r = messageId) ms)"

text \<open>\<^verbatim>\<open>INSERT INTO messages (sender, receiver, content, upvotes, downvotes)
  VALUES ($1, $2, $3, 0, 0) RETURNING id\<close>: the new row and the id it got.\<close>

definition insert_message :: "database \<Rightarrow> string \<Rightarrow> string \<Rightarrow> string \<Rightarrow> int \<times> database" where
  "insert_message d s r c =
     (next_id d,
      d\<lparr>messages := messages d @
           [\<lparr>m_id = next_id d, m_sender = s, m_receiver = r, m_content = c,
             m_upvotes = 0, m_downvotes = 0\<rparr>],
        next_id := next_id d + 1\<rparr>)"

text \<open>\<^verbatim>\<open>SELECT ... FROM messages WHERE (sender = $1 AND receiver = $2) OR
  (sender = $2 AND receiver = $1) ORDER BY timestamp\<close>\<close>

definition select_messages :: "message_row list \<Rightarrow> string \<Rightarrow> string \<Rightarrow> Message list" where
  "select_messages ms s r =
     map scan_message
       (filter (\<lambda>row. (m_sender row = s \<and> m_receiver row = r) \<or>
                       (m_sender row = r \<and> m_receiver row = s)) ms)"

section \<open>Redis\<close>

text \<open>\<^verbatim>\<open>rdb.HSet(ctx, key, field, value)\<close>; the handlers drop the command's result, so
  a failed write leaves the cache as it was and is seen by nobody.\<close>

definition HSet :: "bool \<Rightarrow> (string \<Rightarrow> string \<rightharpoonup> int) \<Rightarrow> string \<Rightarrow> string \<Rightarrow> int
    \<Rightarrow> (string \<Rightarrow> string \<rightharpoonup> int)" where
  "HSet fails c key field v = (if fails then c else c(key := (c key)(field \<mapsto> v)))"

section \<open>The hub: \<^verbatim>\<open>handleMessages\<close> and \<^verbatim>\<open>sendMessageToUser\<close>\<close>

text \<open>
  \<^verbatim>\<open>sendMessageToUser\<close> (lines 244-254): look the user up in \<^verbatim>\<open>clients\<close>; when there
  is an entry, write the message to its connection; when the write fails, close the
  connection and delete the entry. The flag says whether this write fails.
\<close>

definition sendMessageToUser :: "bool \<Rightarrow> string \<Rightarrow> Message \<Rightarrow> state \<Rightarrow> state" where
  "sendMessageToUser write_fails userID msg s =
     (case clients s userID of
        None \<Rightarrow> s
      | Some client \<Rightarrow>
          if write_fails
          then s\<lparr>clients := (clients s)(userID := None),
                 closed := insert (Conn client) (closed s)\<rparr>
          else s\<lparr>sent := sent s @ [(Conn client, msg)]\<rparr>)"

text \<open>
  One turn of the loop of \<^verbatim>\<open>handleMessages\<close> (lines 235-241) for the message taken from
  the channel \<^verbatim>\<open>broadcast\<close>. The channel is unbuffered: a handler that sends on it is
  blocked until this loop has taken the message, so the model runs the turn at the
  place of the send.
\<close>

definition handleMessages :: "faults \<Rightarrow> Message \<Rightarrow> state \<Rightarrow> state" where
  "handleMessages f msg s =
     sendMessageToUser (receiver_write_fails f) (Receiver msg) msg
       (sendMessageToUser (sender_write_fails f) (Sender msg) msg s)"

section \<open>The WebSocket handler\<close>

text \<open>
  \<^verbatim>\<open>wsHandler\<close> (lines 431-454) runs for the life of one connection, interleaved with
  every other request, so it is modelled by its three phases: the registration
  (lines 439-441), one turn of the read loop with a message read (lines 444-452), and
  the turn where the read fails (lines 446-449, then the deferred \<^verbatim>\<open>conn.Close()\<close>).
  A request whose upgrade fails (lines 433-436) is answered and touches no state; it has
  no phase here.
\<close>

definition wsHandler_register :: "string \<Rightarrow> nat \<Rightarrow> state \<Rightarrow> state" where
  "wsHandler_register userID conn s =
     s\<lparr>clients := (clients s)(userID \<mapsto> \<lparr>UserID = userID, Conn = conn\<rparr>)\<rparr>"

definition wsHandler_read :: "faults \<Rightarrow> string \<Rightarrow> nat \<Rightarrow> Message \<Rightarrow> state \<Rightarrow> state" where
  "wsHandler_read f userID conn msg s = handleMessages f msg s"

definition wsHandler_read_error :: "string \<Rightarrow> nat \<Rightarrow> state \<Rightarrow> state" where
  "wsHandler_read_error userID conn s =
     s\<lparr>clients := (clients s)(userID := None), closed := insert conn (closed s)\<rparr>"

section \<open>The request handlers\<close>

text \<open>
  \<^verbatim>\<open>sendMessageHandler\<close> (lines 457-479). The request body is the \<^verbatim>\<open>Message\<close> that
  \<^verbatim>\<open>ShouldBindJSON\<close> produced; when the binding fails the response carries the text of
  the binding error, which stands here as a fixed string.
\<close>

definition sendMessageHandler :: "faults \<Rightarrow> Message \<Rightarrow> state \<Rightarrow> response \<times> state" where
  "sendMessageHandler f msg s =
     (if bind_fails f then (json_error StatusBadRequest ''bind error'', s)
      else if insert_message_fails f
      then (json_error StatusInternalServerError ''Failed to send message'', s)
      else
        let (new_id, d) = insert_message (db s) (Sender msg) (Receiver msg) (Content msg);
            msg' = msg\<lparr>ID := fmt_d new_id\<rparr>;
            s' = handleMessages f msg' (s\<lparr>db := d\<rparr>)
        in (\<lparr>status = StatusCreated, payload = MessageBody msg'\<rparr>, s'))"

text \<open>\<^verbatim>\<open>getMessagesHandler\<close> (lines 482-514). The query, the scan of a row and the
  iteration can each fail; each failure answers 500 and reads nothing more, so one
  flag stands for the three, with the error text of the first.\<close>

definition getMessagesHandler :: "faults \<Rightarrow> string \<Rightarrow> string \<Rightarrow> state \<Rightarrow> response" where
  "getMessagesHandler f sender receiver s =
     (if select_messages_fails f
      then json_error StatusInternalServerError ''Failed to fetch messages''
      else \<lparr>status = StatusOK,
            payload = MessagesBody (select_messages (messages (db s)) sender receiver)\<rparr>)"

text \<open>
  The two vote handlers are the same text except for the branch on the existing vote
  (lines 544-570 and 624-650). The branch gives the new \<^verbatim>\<open>user_votes\<close> table, the two
  deltas and the error message of its statement. \<^verbatim>\<open>existingVote\<close> is the empty string
  when the query found no row.
\<close>

type_synonym vote_branch = "vote_row list \<Rightarrow> string \<Rightarrow> int \<Rightarrow> string
    \<Rightarrow> vote_row list \<times> int \<times> int \<times> string"

definition upvote_branch :: vote_branch where
  "upvote_branch vs userId messageId existingVote =
     (if existingVote = ''upvote''
      then (delete_vote vs userId messageId, - 1, 0, ''Failed to remove upvote'')
      else if existingVote = ''downvote''
      then (update_vote vs userId messageId ''upvote'', 1, - 1, ''Failed to update vote'')
      else (insert_vote vs userId messageId ''upvote'', 1, 0, ''Failed to add upvote''))"

definition downvote_branch :: vote_branch where
  "downvote_branch vs userId messageId existingVote =
     (if existingVote = ''downvote''
      then (delete_vote vs userId messageId, 0, - 1, ''Failed to remove downvote'')
      else if existingVote = ''upvote''
      then (update_vote vs userId messageId ''downvote'', - 1, 1, ''Failed to update vote'')
      else (insert_vote vs userId messageId ''downvote'', 0, 1, ''Failed to add downvote''))"

text \<open>
  The shared text of the handlers (lines 517-543 and 572-594). The transaction works on
  \<^verbatim>\<open>tx\<close>, a copy of the database, which \<^verbatim>\<open>Commit\<close> installs and \<^verbatim>\<open>Rollback\<close> (or a
  failed commit) drops.

  The path parameter \<^verbatim>\<open>:id\<close> is a text, \<^verbatim>\<open>messageId\<close>. The handler passes it as it is
  to every statement, where PostgreSQL reads it as an integer, and formats it as it is
  into the Redis key. How PostgreSQL reads a text as an integer is not part of the
  sources, so the integer is a second argument of the model, \<^verbatim>\<open>message_key\<close>: the
  statements use the integer, the cache key uses the text (for the path
  \<^verbatim>\<open>/messages/007/upvote\<close> these are 7 and \<^verbatim>\<open>007\<close>). A text that PostgreSQL reads as
  no integer makes the first query fail.
\<close>

definition existing_vote :: "vote_row list \<Rightarrow> string \<Rightarrow> int \<Rightarrow> string" where
  "existing_vote vs userId messageId =
     (case select_vote_type vs userId messageId of None \<Rightarrow> '''' | Some t \<Rightarrow> t)"

text \<open>Lines 579-580 (and 659-660): the two cache writes, results dropped.\<close>

definition cache_votes :: "faults \<Rightarrow> string \<Rightarrow> int \<Rightarrow> int \<Rightarrow> state \<Rightarrow> state" where
  "cache_votes f messageId up down s =
     s\<lparr>rdb := HSet (hset_downvotes_fails f)
                 (HSet (hset_upvotes_fails f) (rdb s) (cache_key messageId) ''upvotes'' up)
                 (cache_key messageId) ''downvotes'' down\<rparr>"

text \<open>Lines 587-591 (and 667-671): read the message back outside the transaction and,
  when that works, send it on \<^verbatim>\<open>broadcast\<close>.\<close>

definition broadcast_updated :: "faults \<Rightarrow> int \<Rightarrow> state \<Rightarrow> state" where
  "broadcast_updated f messageId s =
     (if select_message_fails f then s
      else case select_message (messages (db s)) messageId of
             None \<Rightarrow> s
           | Some updatedMessage \<Rightarrow> handleMessages f updatedMessage s)"

definition voteHandler :: "vote_branch \<Rightarrow> faults \<Rightarrow> string \<Rightarrow> string \<Rightarrow> int \<Rightarrow> state
    \<Rightarrow> response \<times> state" where
  "voteHandler branch f userId messageId message_key s =
     (if begin_fails f
      then (json_error StatusInternalServerError ''Failed to start transaction'', s)
      else
        let tx = db s in
        if select_vote_fails f
        then (json_error StatusInternalServerError ''Failed to fetch existing vote'', s)
        else
          let existingVote = existing_vote (user_votes tx) userId message_key in
          if select_counts_fails f
          then (json_error StatusInternalServerError ''Failed to fetch message votes'', s)
          else
            case select_counts (messages tx) message_key of
              None \<Rightarrow> (json_error StatusInternalServerError ''Failed to fetch message votes'', s)
            | Some (upvotesBefore, downvotesBefore) \<Rightarrow>
                let (votes', upvotesChange, downvotesChange, errmsg) =
                      branch (user_votes tx) userId message_key existingVote
                in
                if exec_vote_fails f
                then (json_error StatusInternalServerError errmsg, s)
                else if update_counts_fails f
                then (json_error StatusInternalServerError ''Failed to update vote counts'', s)
                else
                  let tx' = tx\<lparr>user_votes := votes',
                               messages := update_counts (messages tx) upvotesChange
                                             downvotesChange message_key\<rparr>;
                      s1 = cache_votes f messageId (upvotesBefore + upvotesChange)
                             (downvotesBefore + downvotesChange) s
                  in
                  if commit_fails f
                  then (json_error StatusInternalServerError ''Failed to commit transaction'', s1)
                  else (\<lparr>status = StatusOK, payload = TextBody ''Vote toggled successfully''\<rparr>,
                        broadcast_updated f message_key (s1\<lparr>db := tx'\<rparr>)))"

definition upvoteMessageHandler :: "faults \<Rightarrow> string \<Rightarrow> string \<Rightarrow> int \<Rightarrow> state
    \<Rightarrow> response \<times> state" where
  "upvoteMessageHandler = voteHandler upvote_branch"

definition downvoteMessageHandler :: "faults \<Rightarrow> string \<Rightarrow> string \<Rightarrow> int \<Rightarrow> state
    \<Rightarrow> response \<times> state" where
  "downvoteMessageHandler = voteHandler downvote_branch"

text \<open>
  The operation \<^verbatim>\<open>castVote(user, message_id, type)\<close> of the specification is the pair of
  routes \<^verbatim>\<open>POST /messages/:id/upvote\<close> and \<^verbatim>\<open>POST /messages/:id/downvote\<close>.
\<close>

datatype vote = upvote | downvote

fun castVote :: "faults \<Rightarrow> string \<Rightarrow> string \<Rightarrow> int \<Rightarrow> vote \<Rightarrow> state \<Rightarrow> response \<times> state" where
  "castVote f userId messageId message_key upvote s =
     upvoteMessageHandler f userId messageId message_key s"
| "castVote f userId messageId message_key downvote s =
     downvoteMessageHandler f userId messageId message_key s"


section \<open>Runs of the server\<close>

text \<open>
  A run of the server is a sequence of handler calls, each with the failures the
  environment chose for it. \<^verbatim>\<open>getMessagesHandler\<close> changes nothing and is left out.
\<close>

datatype api_call =
  SendMessage faults Message
  | CastVote faults string string int vote
  | WsRegister string nat
  | WsRead faults string nat Message
  | WsReadError string nat

fun step :: "api_call \<Rightarrow> state \<Rightarrow> state" where
  "step (SendMessage f msg) s = snd (sendMessageHandler f msg s)"
| "step (CastVote f userId messageId message_key t) s =
     snd (castVote f userId messageId message_key t s)"
| "step (WsRegister userID conn) s = wsHandler_register userID conn s"
| "step (WsRead f userID conn msg) s = wsHandler_read f userID conn msg s"
| "step (WsReadError userID conn) s = wsHandler_read_error userID conn s"

definition run :: "api_call list \<Rightarrow> state \<Rightarrow> state" where
  "run calls s = fold step calls s"

text \<open>The environment in which nothing fails, and the server just started on an empty
  database.\<close>

definition no_faults :: faults where
  "no_faults =
     \<lparr>bind_fails = False, begin_fails = False, select_vote_fails = False,
      select_counts_fails = False, exec_vote_fails = False, update_counts_fails = False,
      hset_upvotes_fails = False, hset_downvotes_fails = False, commit_fails = False,
      select_message_fails = False, insert_message_fails = False,
      select_messages_fails = False, sender_write_fails = False,
      receiver_write_fails = False\<rparr>"

definition init_state :: state where
  "init_state =
     \<lparr>db = \<lparr>messages = [], user_votes = [], next_id = 1\<rparr>,
      rdb = (\<lambda>key. Map.empty), clients = Map.empty, closed = {}, sent = []\<rparr>"

section \<open>The vocabulary of the specification\<close>

text \<open>
  The statements of the transaction all succeed (the cache writes and the final read
  of the message are not part of it).
\<close>

definition tx_ok :: "faults \<Rightarrow> bool" where
  "tx_ok f \<longleftrightarrow>
     \<not> begin_fails f \<and> \<not> select_vote_fails f \<and> \<not> select_counts_fails f \<and>
     \<not> exec_vote_fails f \<and> \<not> update_counts_fails f \<and> \<not> commit_fails f"

text \<open>The statements before the commit all succeed.\<close>

definition statements_ok :: "faults \<Rightarrow> bool" where
  "statements_ok f \<longleftrightarrow>
     \<not> begin_fails f \<and> \<not> select_vote_fails f \<and> \<not> select_counts_fails f \<and>
     \<not> exec_vote_fails f \<and> \<not> update_counts_fails f"

text \<open>
  The vote state of a (user, message) pair, read from \<^verbatim>\<open>user_votes\<close> the way the handlers
  read it: the first matching row decides, and a vote type that is neither
  \<^verbatim>\<open>upvote\<close> nor \<^verbatim>\<open>downvote\<close> is treated like no row.
\<close>

datatype vote_state = NONE | UPVOTED | DOWNVOTED

definition vote_state_of :: "vote_row list \<Rightarrow> string \<Rightarrow> int \<Rightarrow> vote_state" where
  "vote_state_of vs userId messageId =
     (case select_vote_type vs userId messageId of
        None \<Rightarrow> NONE
      | Some t \<Rightarrow> if t = ''upvote'' then UPVOTED
                  else if t = ''downvote'' then DOWNVOTED else NONE)"

text \<open>
  The toggle machine as section 4.3 of the specification writes it: the next state and
  the deltas of \<^verbatim>\<open>upvotes\<close> and \<^verbatim>\<open>downvotes\<close>.
\<close>

fun toggle_spec :: "vote_state \<Rightarrow> vote \<Rightarrow> vote_state \<times> int \<times> int" where
  "toggle_spec NONE upvote = (UPVOTED, 1, 0)"
| "toggle_spec NONE downvote = (DOWNVOTED, 0, 1)"
| "toggle_spec UPVOTED upvote = (NONE, - 1, 0)"
| "toggle_spec DOWNVOTED downvote = (NONE, 0, - 1)"
| "toggle_spec UPVOTED downvote = (DOWNVOTED, - 1, 1)"
| "toggle_spec DOWNVOTED upvote = (UPVOTED, 1, - 1)"

text \<open>The database a vote handler commits when every statement succeeds, and the two
  deltas it applies.\<close>

definition tx_result :: "vote_branch \<Rightarrow> string \<Rightarrow> int \<Rightarrow> database \<Rightarrow> database" where
  "tx_result branch userId messageId d =
     (let (votes', upvotesChange, downvotesChange, errmsg) =
            branch (user_votes d) userId messageId (existing_vote (user_votes d) userId messageId)
      in d\<lparr>user_votes := votes',
           messages := update_counts (messages d) upvotesChange downvotesChange messageId\<rparr>)"

definition upvotes_change :: "vote_branch \<Rightarrow> string \<Rightarrow> int \<Rightarrow> database \<Rightarrow> int" where
  "upvotes_change branch userId messageId d =
     fst (snd (branch (user_votes d) userId messageId
                 (existing_vote (user_votes d) userId messageId)))"

definition downvotes_change :: "vote_branch \<Rightarrow> string \<Rightarrow> int \<Rightarrow> database \<Rightarrow> int" where
  "downvotes_change branch userId messageId d =
     fst (snd (snd (branch (user_votes d) userId messageId
                      (existing_vote (user_votes d) userId messageId))))"

fun vote_branch_of :: "vote \<Rightarrow> vote_branch" where
  "vote_branch_of upvote = upvote_branch"
| "vote_branch_of downvote = downvote_branch"

text \<open>Every vote record has one of the two vote types.\<close>

definition valid_vote_types :: "vote_row list \<Rightarrow> bool" where
  "valid_vote_types vs \<longleftrightarrow>
     list_all (\<lambda>v. v_vote_type v = ''upvote'' \<or> v_vote_type v = ''downvote'') vs"

definition vote_key :: "vote_row \<Rightarrow> string \<times> int" where
  "vote_key v = (v_user_id v, v_message_id v)"

text \<open>The number of vote records of a message with a given vote type.\<close>

definition count_votes :: "vote_row list \<Rightarrow> int \<Rightarrow> string \<Rightarrow> nat" where
  "count_votes vs messageId t =
     length (filter (\<lambda>v. v_message_id v = messageId \<and> v_vote_type v = t) vs)"

text \<open>
  The invariant of the ledger: vote types are valid, no (user, message) pair has two
  records, every counter is the number of records of its type, and the id sequence is
  ahead of every id in use.
\<close>

definition ledger_inv :: "database \<Rightarrow> bool" where
  "ledger_inv d \<longleftrightarrow>
     valid_vote_types (user_votes d) \<and>
     distinct (map vote_key (user_votes d)) \<and>
     list_all (\<lambda>r. m_upvotes r = int (count_votes (user_votes d) (m_id r) ''upvote'') \<and>
                   m_downvotes r = int (count_votes (user_votes d) (m_id r) ''downvote''))
       (messages d) \<and>
     list_all (\<lambda>r. m_id r < next_id d) (messages d) \<and>
     list_all (\<lambda>v. v_message_id v < next_id d) (user_votes d)"

text \<open>What the specification promises of the tallies of every stored message.\<close>

definition tally_ok :: "database \<Rightarrow> bool" where
  "tally_ok d \<longleftrightarrow>
     (\<forall>r \<in> set (messages d).
        m_upvotes r = int (count_votes (user_votes d) (m_id r) ''upvote'') \<and>
        m_downvotes r = int (count_votes (user_votes d) (m_id r) ''downvote'') \<and>
        (\<forall>u. length (filter (vote_matches u (m_id r)) (user_votes d)) \<le> 1) \<and>
        m_upvotes r + m_downvotes r =
          int (card {u. vote_state_of (user_votes d) u (m_id r) \<noteq> NONE}) \<and>
        0 \<le> m_upvotes r \<and> 0 \<le> m_downvotes r)"

text \<open>Two states that differ at most in the cache.\<close>

definition same_but_cache :: "state \<Rightarrow> state \<Rightarrow> bool" where
  "same_but_cache s s' \<longleftrightarrow>
     db s = db s' \<and> clients s = clients s' \<and> closed s = closed s' \<and> sent s = sent s'"

text \<open>
  What one push of \<^verbatim>\<open>sendMessageToUser\<close> adds to the log of deliveries and to the closed
  connections, given the registry entry it found; and the entry the second push of
  \<^verbatim>\<open>handleMessages\<close> finds for the receiver (the first push may have deleted it when
  sender and receiver are the same user).
\<close>

definition pushed :: "bool \<Rightarrow> Client option \<Rightarrow> Message \<Rightarrow> (nat \<times> Message) list" where
  "pushed write_fails entry msg =
     (case entry of
        None \<Rightarrow> []
      | Some client \<Rightarrow> if write_fails then [] else [(Conn client, msg)])"

definition dropped :: "bool \<Rightarrow> Client option \<Rightarrow> nat set" where
  "dropped write_fails entry =
     (case entry of
        None \<Rightarrow> {}
      | Some client \<Rightarrow> if write_fails then {Conn client} else {})"

definition receiver_entry :: "faults \<Rightarrow> Message \<Rightarrow> state \<Rightarrow> Client option" where
  "receiver_entry f msg s =
     (if Receiver msg = Sender msg \<and> sender_write_fails f then None
      else clients s (Receiver msg))"

section \<open>Example states\<close>

text \<open>
  The example of section 8 of the specification: message 7 with two upvotes (bob, carol)
  and one downvote (dave), alice and bob connected.
\<close>

definition m7 :: Message where
  "m7 = \<lparr>ID = ''7'', Sender = ''bob'', Receiver = ''alice'', Content = ''hello'',
          Upvotes = 2, Downvotes = 1\<rparr>"

definition m7_state :: state where
  "m7_state =
     \<lparr>db = \<lparr>messages = [\<lparr>m_id = 7, m_sender = ''bob'', m_receiver = ''alice'',
                            m_content = ''hello'', m_upvotes = 2, m_downvotes = 1\<rparr>],
             user_votes = [\<lparr>v_user_id = ''bob'', v_message_id = 7, v_vote_type = ''upvote''\<rparr>,
                           \<lparr>v_user_id = ''carol'', v_message_id = 7, v_vote_type = ''upvote''\<rparr>,
                           \<lparr>v_user_id = ''dave'', v_message_id = 7, v_vote_type = ''downvote''\<rparr>],
             next_id = 8\<rparr>,
      rdb = (\<lambda>key. Map.empty),
      clients = [''alice'' \<mapsto> \<lparr>UserID = ''alice'', Conn = 1\<rparr>,
                 ''bob'' \<mapsto> \<lparr>UserID = ''bob'', Conn = 2\<rparr>],
      closed = {}, sent = []\<rparr>"

text \<open>A note alice sends to herself, with counters a client made up.\<close>

definition note_to_self :: Message where
  "note_to_self = \<lparr>ID = [], Sender = ''alice'', Receiver = ''alice'', Content = ''todo'',
                    Upvotes = 5, Downvotes = 3\<rparr>"

text \<open>A request body from carol to alice with counters a client made up.\<close>

definition forged :: Message where
  "forged = \<lparr>ID = ''7'', Sender = ''carol'', Receiver = ''alice'', Content = ''psst'',
              Upvotes = 40, Downvotes = 0\<rparr>"

section \<open>Lemmas about lists and handlers\<close>

lemma find_filter_not: "find P (filter (\<lambda>x. \<not> P x) xs) = None"
  by (induction xs) auto

lemma find_map_same:
  "(\<And>x. P (g x) = P x) \<Longrightarrow> find P (map g xs) = map_option g (find P xs)"
  by (induction xs) auto

lemma find_snoc:
  "find P (xs @ [y]) = (case find P xs of None \<Rightarrow> (if P y then Some y else None) | Some x \<Rightarrow> Some x)"
  by (induction xs) auto

lemma db_handleMessages [simp]: "db (handleMessages f msg s) = db s"
  by (simp add: handleMessages_def sendMessageToUser_def split: option.splits)

lemma rdb_handleMessages [simp]: "rdb (handleMessages f msg s) = rdb s"
  by (simp add: handleMessages_def sendMessageToUser_def split: option.splits)

lemma db_broadcast_updated [simp]: "db (broadcast_updated f m s) = db s"
  by (simp add: broadcast_updated_def split: option.splits)

lemma rdb_broadcast_updated [simp]: "rdb (broadcast_updated f m s) = rdb s"
  by (simp add: broadcast_updated_def split: option.splits)

lemma db_cache_votes [simp]: "db (cache_votes f m a b s) = db s"
  by (simp add: cache_votes_def)

lemma voteHandler_early:
  assumes "\<not> statements_ok f \<or> select_counts (messages (db s)) m = None"
  shows "\<exists>e. voteHandler branch f u raw m s = (json_error StatusInternalServerError e, s)"
  using assms
  by (cases "select_counts (messages (db s)) m")
     (auto simp: voteHandler_def statements_ok_def Let_def split: prod.splits)

lemma voteHandler_commit_failed:
  assumes "statements_ok f" "commit_fails f"
    and "select_counts (messages (db s)) m = Some (up, down)"
  shows "voteHandler branch f u raw m s =
          (json_error StatusInternalServerError ''Failed to commit transaction'',
           cache_votes f raw (up + upvotes_change branch u m (db s))
              (down + downvotes_change branch u m (db s)) s)"
  using assms
  by (simp add: voteHandler_def statements_ok_def upvotes_change_def downvotes_change_def
        Let_def split: prod.splits)

lemma voteHandler_committed:
  assumes "tx_ok f" and "select_counts (messages (db s)) m = Some (up, down)"
  shows "voteHandler branch f u raw m s =
          (\<lparr>status = StatusOK, payload = TextBody ''Vote toggled successfully''\<rparr>,
           broadcast_updated f m
            ((cache_votes f raw (up + upvotes_change branch u m (db s))
              (down + downvotes_change branch u m (db s)) s)
              \<lparr>db := tx_result branch u m (db s)\<rparr>))"
  using assms
  by (simp add: voteHandler_def tx_ok_def tx_result_def upvotes_change_def
        downvotes_change_def Let_def split: prod.splits)

lemma tx_ok_iff: "tx_ok f \<longleftrightarrow> statements_ok f \<and> \<not> commit_fails f"
  by (auto simp: tx_ok_def statements_ok_def)

lemma castVote_eq: "castVote f u raw m t s = voteHandler (vote_branch_of t) f u raw m s"
  by (cases t) (simp_all add: upvoteMessageHandler_def downvoteMessageHandler_def)

lemma voteHandler_db:
  "db (snd (voteHandler branch f u raw m s)) =
     (if tx_ok f \<and> select_counts (messages (db s)) m \<noteq> None
      then tx_result branch u m (db s) else db s)"
proof (cases "statements_ok f \<and> select_counts (messages (db s)) m \<noteq> None")
  case False
  then obtain e where "voteHandler branch f u raw m s = (json_error StatusInternalServerError e, s)"
    using voteHandler_early[of f s m branch u] by blast
  with False show ?thesis by (auto simp: tx_ok_iff)
next
  case True
  then obtain up down where c: "select_counts (messages (db s)) m = Some (up, down)" by auto
  show ?thesis
  proof (cases "commit_fails f")
    case True
    with \<open>statements_ok f \<and> _\<close> c show ?thesis
      by (simp add: voteHandler_commit_failed tx_ok_iff)
  next
    case False
    with \<open>statements_ok f \<and> _\<close> c show ?thesis
      by (simp add: voteHandler_committed tx_ok_iff)
  qed
qed

subsection \<open>The vote table after each statement\<close>

lemma select_vote_type_delete: "select_vote_type (delete_vote vs u m) u m = None"
  by (simp add: select_vote_type_def delete_vote_def find_filter_not)

lemma vote_matches_retype [simp]:
  "vote_matches u m (v\<lparr>v_vote_type := t\<rparr>) = vote_matches u m v"
  by (simp add: vote_matches_def)

lemma select_vote_type_update:
  "select_vote_type (update_vote vs u m t) u m = map_option (\<lambda>_. t) (select_vote_type vs u m)"
  by (induction vs) (auto simp: select_vote_type_def update_vote_def)

lemma select_vote_type_insert:
  "select_vote_type vs u m = None \<Longrightarrow> select_vote_type (insert_vote vs u m t) u m = Some t"
  by (simp add: select_vote_type_def insert_vote_def find_snoc vote_matches_def)

lemma select_vote_type_valid:
  assumes "valid_vote_types vs" and "select_vote_type vs u m = Some t"
  shows "t = ''upvote'' \<or> t = ''downvote''"
proof -
  from assms(2) obtain v where "find (vote_matches u m) vs = Some v" and t: "t = v_vote_type v"
    by (auto simp: select_vote_type_def)
  then have "v \<in> set vs" by (auto simp: find_Some_iff)
  with assms(1) t show ?thesis by (auto simp: valid_vote_types_def list_all_iff)
qed

lemma vote_state_NONE:
  "valid_vote_types vs \<Longrightarrow> vote_state_of vs u m = NONE \<longleftrightarrow> select_vote_type vs u m = None"
  by (auto simp: vote_state_of_def split: option.splits dest: select_vote_type_valid)

lemma vote_state_UPVOTED:
  "vote_state_of vs u m = UPVOTED \<longleftrightarrow> select_vote_type vs u m = Some ''upvote''"
  by (auto simp: vote_state_of_def split: option.splits)

lemma vote_state_DOWNVOTED:
  "vote_state_of vs u m = DOWNVOTED \<longleftrightarrow> select_vote_type vs u m = Some ''downvote''"
  by (auto simp: vote_state_of_def split: option.splits)

text \<open>The branch of each handler, read as the toggle machine.\<close>

lemma branch_toggle:
  assumes "valid_vote_types vs"
    and "toggle_spec (vote_state_of vs u m) t = (q', du, dd)"
    and "vote_branch_of t vs u m (existing_vote vs u m) = (vs', du', dd', e)"
  shows "vote_state_of vs' u m = q' \<and> du' = du \<and> dd' = dd"
proof (cases "vote_state_of vs u m")
  case NONE
  with assms(1) have n: "select_vote_type vs u m = None" by (simp add: vote_state_NONE)
  then have "existing_vote vs u m = []" by (simp add: existing_vote_def)
  with assms(2,3) NONE n show ?thesis
    by (cases t)
       (auto simp: upvote_branch_def downvote_branch_def vote_state_UPVOTED vote_state_DOWNVOTED
          select_vote_type_insert)
next
  case UPVOTED
  then have n: "select_vote_type vs u m = Some ''upvote''" by (simp add: vote_state_UPVOTED)
  then have "existing_vote vs u m = ''upvote''" by (simp add: existing_vote_def)
  with assms(2,3) UPVOTED n show ?thesis
    by (cases t)
       (auto simp: upvote_branch_def downvote_branch_def vote_state_of_def
          select_vote_type_delete select_vote_type_update)
next
  case DOWNVOTED
  then have n: "select_vote_type vs u m = Some ''downvote''" by (simp add: vote_state_DOWNVOTED)
  then have "existing_vote vs u m = ''downvote''" by (simp add: existing_vote_def)
  with assms(2,3) DOWNVOTED n show ?thesis
    by (cases t)
       (auto simp: upvote_branch_def downvote_branch_def vote_state_of_def
          select_vote_type_delete select_vote_type_update)
qed

subsection \<open>The message table after the counter update\<close>

lemma find_update_counts:
  "find (\<lambda>r. m_id r = m') (update_counts ms du dd m) =
     map_option (\<lambda>r. if m_id r = m then r\<lparr>m_upvotes := m_upvotes r + du,
                                          m_downvotes := m_downvotes r + dd\<rparr> else r)
       (find (\<lambda>r. m_id r = m') ms)"
  unfolding update_counts_def by (rule find_map_same) simp

lemma find_Some_holds: "find P xs = Some x \<Longrightarrow> P x"
  by (auto simp: find_Some_iff)

lemma select_message_update_counts:
  "select_message (update_counts ms du dd m) m =
     map_option (\<lambda>M. M\<lparr>Upvotes := Upvotes M + du, Downvotes := Downvotes M + dd\<rparr>)
       (select_message ms m)"
  by (cases "find (\<lambda>r. m_id r = m) ms")
     (auto simp: select_message_def find_update_counts scan_message_def dest: find_Some_holds)

lemma select_message_other:
  "m' \<noteq> m \<Longrightarrow> select_message (update_counts ms du dd m) m' = select_message ms m'"
  by (cases "find (\<lambda>r. m_id r = m') ms")
     (auto simp: select_message_def find_update_counts dest: find_Some_holds)

lemma select_counts_message:
  "select_counts ms m = map_option (\<lambda>M. (Upvotes M, Downvotes M)) (select_message ms m)"
  by (cases "find (\<lambda>r. m_id r = m) ms") (auto simp: select_counts_def select_message_def scan_message_def)

subsection \<open>Counting vote records\<close>

lemma filter_matches_single:
  "distinct (map vote_key vs) \<Longrightarrow> find (vote_matches u m) vs = Some v \<Longrightarrow>
   filter (vote_matches u m) vs = [v]"
proof (induction vs)
  case Nil
  then show ?case by simp
next
  case (Cons x xs)
  show ?case
  proof (cases "vote_matches u m x")
    case True
    with Cons.prems have "v = x" by simp
    moreover from True Cons.prems(1) have "filter (vote_matches u m) xs = []"
      by (auto simp: filter_empty_conv vote_matches_def vote_key_def image_iff)
    ultimately show ?thesis using True by simp
  next
    case False
    with Cons show ?thesis by simp
  qed
qed

lemma filter_matches_none:
  "find (vote_matches u m) vs = None \<Longrightarrow> filter (vote_matches u m) vs = []"
  by (auto simp: find_None_iff filter_empty_conv)

lemma matches_at_most_one:
  "distinct (map vote_key vs) \<Longrightarrow> length (filter (vote_matches u m) vs) \<le> 1"
  by (cases "find (vote_matches u m) vs")
     (simp_all add: filter_matches_none filter_matches_single)

lemma count_votes_split:
  "count_votes vs m' t =
     count_votes (filter (vote_matches u m) vs) m' t + count_votes (delete_vote vs u m) m' t"
  by (induction vs) (auto simp: count_votes_def delete_vote_def)

lemma count_votes_single:
  "count_votes [v] m' t = (if v_message_id v = m' \<and> v_vote_type v = t then 1 else 0)"
  by (simp add: count_votes_def)

lemma delete_update_vote: "delete_vote (update_vote vs u m t) u m = delete_vote vs u m"
  by (induction vs) (auto simp: delete_vote_def update_vote_def)

lemma filter_update_vote:
  "filter (vote_matches u m) (update_vote vs u m t) =
     map (\<lambda>v. v\<lparr>v_vote_type := t\<rparr>) (filter (vote_matches u m) vs)"
  by (induction vs) (auto simp: update_vote_def)

lemma count_votes_delete:
  assumes "distinct (map vote_key vs)" and "select_vote_type vs u m = Some t0"
  shows "int (count_votes (delete_vote vs u m) m' t) =
           int (count_votes vs m' t) - (if m' = m \<and> t = t0 then 1 else 0)"
proof -
  from assms(2) obtain v where f: "find (vote_matches u m) vs = Some v" and t0: "t0 = v_vote_type v"
    by (auto simp: select_vote_type_def)
  from f have "vote_matches u m v" by (rule find_Some_holds)
  then have m: "v_message_id v = m" by (simp add: vote_matches_def)
  have "filter (vote_matches u m) vs = [v]" using assms(1) f by (rule filter_matches_single)
  then have "count_votes vs m' t = count_votes [v] m' t + count_votes (delete_vote vs u m) m' t"
    using count_votes_split[of vs m' t u m] by simp
  then show ?thesis using m t0 by (auto simp: count_votes_single)
qed

lemma count_votes_update:
  assumes "distinct (map vote_key vs)" and "select_vote_type vs u m = Some t0"
  shows "int (count_votes (update_vote vs u m t1) m' t) =
           int (count_votes vs m' t) - (if m' = m \<and> t = t0 then 1 else 0)
             + (if m' = m \<and> t = t1 then 1 else 0)"
proof -
  from assms(2) obtain v where f: "find (vote_matches u m) vs = Some v" and t0: "t0 = v_vote_type v"
    by (auto simp: select_vote_type_def)
  from f have "vote_matches u m v" by (rule find_Some_holds)
  then have m: "v_message_id v = m" by (simp add: vote_matches_def)
  have single: "filter (vote_matches u m) vs = [v]" using assms(1) f by (rule filter_matches_single)
  have "count_votes (update_vote vs u m t1) m' t =
          count_votes [v\<lparr>v_vote_type := t1\<rparr>] m' t + count_votes (delete_vote vs u m) m' t"
    using count_votes_split[of "update_vote vs u m t1" m' t u m]
    by (simp add: filter_update_vote delete_update_vote single)
  then show ?thesis
    using m count_votes_delete[OF assms, of m' t] by (auto simp: count_votes_single)
qed

lemma count_votes_insert:
  "count_votes (insert_vote vs u m t1) m' t =
     count_votes vs m' t + (if m' = m \<and> t = t1 then 1 else 0)"
  by (simp add: count_votes_def insert_vote_def)

subsection \<open>Validity and uniqueness after each statement\<close>

lemma valid_delete_vote: "valid_vote_types vs \<Longrightarrow> valid_vote_types (delete_vote vs u m)"
  by (simp add: valid_vote_types_def delete_vote_def list_all_iff)

lemma valid_update_vote:
  "valid_vote_types vs \<Longrightarrow> t = ''upvote'' \<or> t = ''downvote'' \<Longrightarrow>
   valid_vote_types (update_vote vs u m t)"
  by (auto simp: valid_vote_types_def update_vote_def list_all_iff)

lemma valid_insert_vote:
  "valid_vote_types vs \<Longrightarrow> t = ''upvote'' \<or> t = ''downvote'' \<Longrightarrow>
   valid_vote_types (insert_vote vs u m t)"
  by (auto simp: valid_vote_types_def insert_vote_def)

lemma distinct_delete_vote:
  "distinct (map vote_key vs) \<Longrightarrow> distinct (map vote_key (delete_vote vs u m))"
  by (simp add: delete_vote_def distinct_map_filter)

lemma keys_update_vote: "map vote_key (update_vote vs u m t) = map vote_key vs"
  by (induction vs) (auto simp: update_vote_def vote_key_def)

lemma distinct_insert_vote:
  assumes "distinct (map vote_key vs)" and "select_vote_type vs u m = None"
  shows "distinct (map vote_key (insert_vote vs u m t))"
proof -
  from assms(2) have "\<forall>v \<in> set vs. \<not> vote_matches u m v"
    by (auto simp: select_vote_type_def find_None_iff)
  then have "(u, m) \<notin> vote_key ` set vs"
    by (auto simp: vote_matches_def vote_key_def)
  with assms(1) show ?thesis by (simp add: insert_vote_def vote_key_def)
qed

lemma ids_delete_vote:
  "list_all (\<lambda>v. v_message_id v < n) vs \<Longrightarrow> list_all (\<lambda>v. v_message_id v < n) (delete_vote vs u m)"
  by (simp add: delete_vote_def list_all_iff)

lemma ids_update_vote:
  "list_all (\<lambda>v. v_message_id v < n) vs \<Longrightarrow> list_all (\<lambda>v. v_message_id v < n) (update_vote vs u m t)"
  by (auto simp: update_vote_def list_all_iff)

lemma ids_insert_vote:
  "list_all (\<lambda>v. v_message_id v < n) vs \<Longrightarrow> m < n \<Longrightarrow>
   list_all (\<lambda>v. v_message_id v < n) (insert_vote vs u m t)"
  by (simp add: insert_vote_def)

subsection \<open>The ledger invariant\<close>

text \<open>What one branch does to the table: validity, uniqueness and id bound are kept, and
  the counts of the voted message move by the two deltas.\<close>

lemma branch_keeps_table:
  assumes valid: "valid_vote_types vs"
    and dist: "distinct (map vote_key vs)"
    and ids: "list_all (\<lambda>v. v_message_id v < n) vs" and m: "m < n"
    and b: "vote_branch_of t vs u m (existing_vote vs u m) = (vs', du, dd, e)"
  shows "valid_vote_types vs'" and "distinct (map vote_key vs')"
    and "list_all (\<lambda>v. v_message_id v < n) vs'"
    and "int (count_votes vs' m' ''upvote'') =
           int (count_votes vs m' ''upvote'') + (if m' = m then du else 0)"
    and "int (count_votes vs' m' ''downvote'') =
           int (count_votes vs m' ''downvote'') + (if m' = m then dd else 0)"
proof -
  consider (none) "select_vote_type vs u m = None"
    | (up) "select_vote_type vs u m = Some ''upvote''"
    | (down) "select_vote_type vs u m = Some ''downvote''"
    using select_vote_type_valid[OF valid, of u m] by (cases "select_vote_type vs u m") auto
  then have "valid_vote_types vs' \<and> distinct (map vote_key vs') \<and>
      list_all (\<lambda>v. v_message_id v < n) vs' \<and>
      int (count_votes vs' m' ''upvote'') =
           int (count_votes vs m' ''upvote'') + (if m' = m then du else 0) \<and>
      int (count_votes vs' m' ''downvote'') =
           int (count_votes vs m' ''downvote'') + (if m' = m then dd else 0)"
  proof cases
    case none
    then have ev: "existing_vote vs u m = []" by (simp add: existing_vote_def)
    show ?thesis
      using b valid dist ids m none unfolding ev
      by (cases t)
         (auto simp: upvote_branch_def downvote_branch_def valid_insert_vote
            distinct_insert_vote ids_insert_vote count_votes_insert)
  next
    case up
    then have ev: "existing_vote vs u m = ''upvote''" by (simp add: existing_vote_def)
    note c = count_votes_delete[OF dist up] count_votes_update[OF dist up]
    show ?thesis
      using b valid dist ids m unfolding ev
      by (cases t)
         (auto simp: upvote_branch_def downvote_branch_def valid_delete_vote valid_update_vote
            distinct_delete_vote keys_update_vote ids_delete_vote ids_update_vote c
            simp del: of_nat_eq_iff)
  next
    case down
    then have ev: "existing_vote vs u m = ''downvote''" by (simp add: existing_vote_def)
    note c = count_votes_delete[OF dist down] count_votes_update[OF dist down]
    show ?thesis
      using b valid dist ids m unfolding ev
      by (cases t)
         (auto simp: upvote_branch_def downvote_branch_def valid_delete_vote valid_update_vote
            distinct_delete_vote keys_update_vote ids_delete_vote ids_update_vote c
            simp del: of_nat_eq_iff)
  qed
  then show "valid_vote_types vs'" and "distinct (map vote_key vs')"
    and "list_all (\<lambda>v. v_message_id v < n) vs'"
    and "int (count_votes vs' m' ''upvote'') =
           int (count_votes vs m' ''upvote'') + (if m' = m then du else 0)"
    and "int (count_votes vs' m' ''downvote'') =
           int (count_votes vs m' ''downvote'') + (if m' = m then dd else 0)"
    by simp_all
qed

lemma select_counts_id_bound:
  assumes "list_all (\<lambda>r. m_id r < n) ms" and "select_counts ms m \<noteq> None"
  shows "m < n"
proof -
  from assms(2) obtain r where f: "find (\<lambda>r. m_id r = m) ms = Some r"
    by (auto simp: select_counts_def)
  then have "r \<in> set ms" "m_id r = m" by (auto simp: find_Some_iff)
  with assms(1) show ?thesis by (auto simp: list_all_iff)
qed

lemma ledger_inv_tx_result:
  assumes inv: "ledger_inv d" and found: "select_counts (messages d) m \<noteq> None"
  shows "ledger_inv (tx_result (vote_branch_of t) u m d)"
proof -
  let ?vs = "user_votes d"
  obtain vs' du dd e where b: "vote_branch_of t ?vs u m (existing_vote ?vs u m) = (vs', du, dd, e)"
    by (metis prod_cases4)
  from inv have valid: "valid_vote_types ?vs" and dist: "distinct (map vote_key ?vs)"
    and cnt: "list_all (\<lambda>r. m_upvotes r = int (count_votes ?vs (m_id r) ''upvote'') \<and>
                   m_downvotes r = int (count_votes ?vs (m_id r) ''downvote'')) (messages d)"
    and mids: "list_all (\<lambda>r. m_id r < next_id d) (messages d)"
    and vids: "list_all (\<lambda>v. v_message_id v < next_id d) ?vs"
    by (simp_all add: ledger_inv_def)
  from mids found have m: "m < next_id d" by (rule select_counts_id_bound)
  note k = branch_keeps_table[OF valid dist vids m b]
  have tx: "tx_result (vote_branch_of t) u m d =
      d\<lparr>user_votes := vs', messages := update_counts (messages d) du dd m\<rparr>"
    using b by (simp add: tx_result_def)
  have c': "list_all (\<lambda>r. m_upvotes r = int (count_votes vs' (m_id r) ''upvote'') \<and>
                   m_downvotes r = int (count_votes vs' (m_id r) ''downvote''))
              (update_counts (messages d) du dd m)"
    using cnt by (auto simp: update_counts_def list_all_iff k(4) k(5))
  have m': "list_all (\<lambda>r. m_id r < next_id d) (update_counts (messages d) du dd m)"
    using mids by (auto simp: update_counts_def list_all_iff)
  show ?thesis
    unfolding tx ledger_inv_def using k(1,2,3) c' m' by simp
qed

lemma ledger_inv_insert_message:
  assumes "ledger_inv d"
  shows "ledger_inv (snd (insert_message d s r c))"
proof -
  from assms have vids: "list_all (\<lambda>v. v_message_id v < next_id d) (user_votes d)"
    by (simp add: ledger_inv_def)
  then have "count_votes (user_votes d) (next_id d) t = 0" for t
    by (auto simp: count_votes_def list_all_iff filter_empty_conv)
  with assms show ?thesis
    by (auto simp: ledger_inv_def insert_message_def list_all_iff)
qed

lemma ledger_inv_step:
  assumes "ledger_inv (db s)"
  shows "ledger_inv (db (step c s))"
proof (cases c)
  case (SendMessage f msg)
  with assms ledger_inv_insert_message[OF assms, of "Sender msg" "Receiver msg" "Content msg"]
  show ?thesis
    by (auto simp: sendMessageHandler_def Let_def split: prod.splits)
next
  case (CastVote f u raw m t)
  with assms show ?thesis
    by (simp add: castVote_eq voteHandler_db ledger_inv_tx_result)
next
  case (WsRegister u c)
  with assms show ?thesis by (simp add: wsHandler_register_def)
next
  case (WsRead f u c msg)
  with assms show ?thesis by (simp add: wsHandler_read_def)
next
  case (WsReadError u c)
  with assms show ?thesis by (simp add: wsHandler_read_error_def)
qed

lemma ledger_inv_run: "ledger_inv (db s) \<Longrightarrow> ledger_inv (db (run calls s))"
  unfolding run_def by (induction calls arbitrary: s) (simp_all add: ledger_inv_step)

lemma ledger_inv_init: "ledger_inv (db init_state)"
  by (simp add: init_state_def ledger_inv_def valid_vote_types_def)

subsection \<open>From the invariant to the tallies\<close>

lemma distinct_voters:
  "distinct (map vote_key vs) \<Longrightarrow>
   distinct (map v_user_id (filter (\<lambda>v. v_message_id v = m) vs))"
  by (induction vs) (auto simp: vote_key_def image_iff)

lemma length_votes_of_message:
  "valid_vote_types vs \<Longrightarrow>
   length (filter (\<lambda>v. v_message_id v = m) vs) =
     count_votes vs m ''upvote'' + count_votes vs m ''downvote''"
  by (induction vs) (auto simp: valid_vote_types_def count_votes_def)

lemma voters_set:
  assumes "valid_vote_types vs"
  shows "{u. vote_state_of vs u m \<noteq> NONE} =
           set (map v_user_id (filter (\<lambda>v. v_message_id v = m) vs))"
proof -
  have "{u. vote_state_of vs u m \<noteq> NONE} = {u. select_vote_type vs u m \<noteq> None}"
    using assms by (simp add: vote_state_NONE)
  also have "\<dots> = {u. \<exists>v \<in> set vs. vote_matches u m v}"
    by (auto simp: select_vote_type_def find_None_iff)
  also have "\<dots> = set (map v_user_id (filter (\<lambda>v. v_message_id v = m) vs))"
    by (auto simp: vote_matches_def image_iff)
  finally show ?thesis .
qed

lemma card_voters:
  assumes "valid_vote_types vs" and "distinct (map vote_key vs)"
  shows "card {u. vote_state_of vs u m \<noteq> NONE} =
           count_votes vs m ''upvote'' + count_votes vs m ''downvote''"
proof -
  have "card {u. vote_state_of vs u m \<noteq> NONE} =
          length (map v_user_id (filter (\<lambda>v. v_message_id v = m) vs))"
    unfolding voters_set[OF assms(1)] using distinct_voters[OF assms(2)]
    by (rule distinct_card)
  then show ?thesis using length_votes_of_message[OF assms(1), of m] by simp
qed

lemma ledger_inv_tally_ok:
  assumes "ledger_inv d"
  shows "tally_ok d"
proof -
  from assms have valid: "valid_vote_types (user_votes d)"
    and dist: "distinct (map vote_key (user_votes d))"
    and cnt: "\<forall>r \<in> set (messages d).
                 m_upvotes r = int (count_votes (user_votes d) (m_id r) ''upvote'') \<and>
                 m_downvotes r = int (count_votes (user_votes d) (m_id r) ''downvote'')"
    by (simp_all add: ledger_inv_def list_all_iff)
  show ?thesis
    unfolding tally_ok_def
    using cnt
    by (auto simp: card_voters[OF valid dist] matches_at_most_one[OF dist, unfolded One_nat_def])
qed

subsection \<open>One vote, every case of the machine\<close>

text \<open>The definitions a concrete run unfolds.\<close>

lemmas eval_defs = no_faults_def init_state_def m7_state_def m7_def note_to_self_def forged_def
  tx_ok_def statements_ok_def valid_vote_types_def vote_state_of_def select_vote_type_def
  vote_matches_def select_message_def select_counts_def scan_message_def fmt_d_def digits.simps
  digit_char_def cache_key_def existing_vote_def upvoteMessageHandler_def downvoteMessageHandler_def
  voteHandler_def upvote_branch_def downvote_branch_def delete_vote_def update_vote_def
  insert_vote_def update_counts_def cache_votes_def HSet_def broadcast_updated_def
  handleMessages_def sendMessageToUser_def json_error_def StatusOK_def
  StatusInternalServerError_def StatusNotFound_def StatusCreated_def StatusBadRequest_def
  sendMessageHandler_def insert_message_def wsHandler_register_def wsHandler_read_def
  wsHandler_read_error_def ledger_inv_def vote_key_def count_votes_def run_def Let_def

lemma branch_valid:
  "valid_vote_types vs \<Longrightarrow> vote_branch_of t vs u m ev = (vs', du, dd, e) \<Longrightarrow>
   valid_vote_types vs'"
  by (cases t)
     (auto simp: upvote_branch_def downvote_branch_def valid_delete_vote valid_update_vote
        valid_insert_vote split: if_splits)

lemma castVote_step:
  assumes ok: "tx_ok f"
    and valid: "valid_vote_types (user_votes (db s))"
    and msg: "select_message (messages (db s)) m = Some M"
    and spec: "toggle_spec (vote_state_of (user_votes (db s)) u m) t = (q', du, dd)"
  shows "status (fst (castVote f u raw m t s)) = StatusOK"
    and "vote_state_of (user_votes (db (snd (castVote f u raw m t s)))) u m = q'"
    and "select_message (messages (db (snd (castVote f u raw m t s)))) m =
           Some (M\<lparr>Upvotes := Upvotes M + du, Downvotes := Downvotes M + dd\<rparr>)"
    and "valid_vote_types (user_votes (db (snd (castVote f u raw m t s))))"
proof -
  let ?b = "vote_branch_of t" and ?vs = "user_votes (db s)"
  obtain vs' du' dd' e where b: "?b ?vs u m (existing_vote ?vs u m) = (vs', du', dd', e)"
    by (metis prod_cases4)
  from branch_toggle[OF valid spec b]
  have q: "vote_state_of vs' u m = q'" and d: "du' = du" "dd' = dd" by simp_all
  from msg have c: "select_counts (messages (db s)) m = Some (Upvotes M, Downvotes M)"
    by (simp add: select_counts_message)
  have dbs: "db (snd (castVote f u raw m t s)) = tx_result ?b u m (db s)"
    using ok c by (simp add: castVote_eq voteHandler_db)
  have tx: "tx_result ?b u m (db s) =
      (db s)\<lparr>user_votes := vs', messages := update_counts (messages (db s)) du dd m\<rparr>"
    using b d by (simp add: tx_result_def)
  show "status (fst (castVote f u raw m t s)) = StatusOK"
    by (simp add: castVote_eq voteHandler_committed[OF ok c])
  show "vote_state_of (user_votes (db (snd (castVote f u raw m t s)))) u m = q'"
    using q by (simp add: dbs tx)
  show "select_message (messages (db (snd (castVote f u raw m t s)))) m =
           Some (M\<lparr>Upvotes := Upvotes M + du, Downvotes := Downvotes M + dd\<rparr>)"
    using msg by (simp add: dbs tx select_message_update_counts)
  show "valid_vote_types (user_votes (db (snd (castVote f u raw m t s))))"
    using branch_valid[OF valid b] by (simp add: dbs tx)
qed

lemma sendMessageToUser_rdb_update:
  "sendMessageToUser w u msg (s\<lparr>rdb := c\<rparr>) = (sendMessageToUser w u msg s)\<lparr>rdb := c\<rparr>"
  by (simp add: sendMessageToUser_def split: option.splits)

lemma handleMessages_rdb_update:
  "handleMessages f msg (s\<lparr>rdb := c\<rparr>) = (handleMessages f msg s)\<lparr>rdb := c\<rparr>"
  by (simp add: handleMessages_def sendMessageToUser_rdb_update)

lemma broadcast_updated_rdb_update:
  "broadcast_updated f m (s\<lparr>rdb := c\<rparr>) = (broadcast_updated f m s)\<lparr>rdb := c\<rparr>"
  by (simp add: broadcast_updated_def handleMessages_rdb_update split: option.splits)

lemma broadcast_updated_hset_faults:
  "broadcast_updated (f\<lparr>hset_upvotes_fails := a, hset_downvotes_fails := b\<rparr>) m s =
     broadcast_updated f m s"
  by (simp add: broadcast_updated_def handleMessages_def split: option.splits)

lemma statements_ok_hset_faults [simp]:
  "statements_ok (f\<lparr>hset_upvotes_fails := a, hset_downvotes_fails := b\<rparr>) = statements_ok f"
  by (simp add: statements_ok_def)

lemma cache_votes_as_update:
  "cache_votes f m up down s = s\<lparr>rdb := rdb (cache_votes f m up down s)\<rparr>"
  by (simp add: cache_votes_def)

text \<open>The three outcomes of a vote handler, with the cache written last in the state.\<close>

lemma voteHandler_outcome:
  "(\<exists>e. voteHandler branch f u raw m s = (json_error StatusInternalServerError e, s) \<and>
        (\<not> statements_ok f \<or> select_counts (messages (db s)) m = None)) \<or>
   (\<exists>up down. statements_ok f \<and> select_counts (messages (db s)) m = Some (up, down) \<and>
      voteHandler branch f u raw m s =
        (if commit_fails f
         then (json_error StatusInternalServerError ''Failed to commit transaction'',
               s\<lparr>rdb := rdb (cache_votes f raw (up + upvotes_change branch u m (db s))
                               (down + downvotes_change branch u m (db s)) s)\<rparr>)
         else (\<lparr>status = StatusOK, payload = TextBody ''Vote toggled successfully''\<rparr>,
               (broadcast_updated f m (s\<lparr>db := tx_result branch u m (db s)\<rparr>))
                 \<lparr>rdb := rdb (cache_votes f raw (up + upvotes_change branch u m (db s))
                               (down + downvotes_change branch u m (db s)) s)\<rparr>)))"
proof (cases "statements_ok f \<and> select_counts (messages (db s)) m \<noteq> None")
  case False
  then show ?thesis using voteHandler_early[of f s m branch u] by blast
next
  case True
  then obtain up down where c: "select_counts (messages (db s)) m = Some (up, down)" by auto
  from True have so: "statements_ok f" by simp
  let ?c = "cache_votes f raw (up + upvotes_change branch u m (db s))
              (down + downvotes_change branch u m (db s)) s"
  have upd: "?c\<lparr>db := d\<rparr> = (s\<lparr>db := d\<rparr>)\<lparr>rdb := rdb ?c\<rparr>" for d
    by (simp add: cache_votes_def)
  show ?thesis
  proof (cases "commit_fails f")
    case True
    from voteHandler_commit_failed[OF so True c, of branch u] so c True
    show ?thesis using cache_votes_as_update[of f raw _ _ s] by auto
  next
    case False
    with so have "tx_ok f" by (simp add: tx_ok_iff)
    from voteHandler_committed[OF this c, of branch u] so c False
    show ?thesis by (simp add: upd broadcast_updated_rdb_update)
  qed
qed

lemma cache_votes_written:
  "\<not> hset_upvotes_fails f \<Longrightarrow> \<not> hset_downvotes_fails f \<Longrightarrow>
   rdb (cache_votes f raw up down s) (cache_key raw) =
     (rdb s (cache_key raw))(''upvotes'' \<mapsto> up, ''downvotes'' \<mapsto> down)"
  by (simp add: cache_votes_def HSet_def)

lemma sent_sendMessageToUser:
  "sent (sendMessageToUser w u msg s) = sent s @ pushed w (clients s u) msg"
  by (cases "clients s u") (simp_all add: sendMessageToUser_def pushed_def)

lemma closed_sendMessageToUser:
  "closed (sendMessageToUser w u msg s) = closed s \<union> dropped w (clients s u)"
  by (cases "clients s u") (simp_all add: sendMessageToUser_def dropped_def)

lemma clients_sendMessageToUser:
  "clients (sendMessageToUser w u msg s) u' = (if u' = u \<and> w then None else clients s u')"
  by (cases "clients s u") (simp_all add: sendMessageToUser_def)

lemma db_sendMessageToUser: "db (sendMessageToUser w u msg s) = db s"
  by (cases "clients s u") (simp_all add: sendMessageToUser_def)

lemmas sendMessageToUser_effect =
  sent_sendMessageToUser closed_sendMessageToUser clients_sendMessageToUser db_sendMessageToUser

lemma sent_handleMessages:
  "sent (handleMessages f msg s) =
     sent s @ pushed (sender_write_fails f) (clients s (Sender msg)) msg
            @ pushed (receiver_write_fails f) (receiver_entry f msg s) msg"
  by (simp add: handleMessages_def sendMessageToUser_effect receiver_entry_def)

lemma closed_handleMessages:
  "closed (handleMessages f msg s) =
     closed s \<union> dropped (sender_write_fails f) (clients s (Sender msg))
              \<union> dropped (receiver_write_fails f) (receiver_entry f msg s)"
  by (simp add: handleMessages_def sendMessageToUser_effect receiver_entry_def)

lemma clients_handleMessages:
  "clients (handleMessages f msg s) u =
     (if (u = Sender msg \<and> sender_write_fails f) \<or> (u = Receiver msg \<and> receiver_write_fails f)
      then None else clients s u)"
  by (simp add: handleMessages_def sendMessageToUser_effect)

lemmas handleMessages_effect = sent_handleMessages closed_handleMessages clients_handleMessages

lemma sendMessageHandler_ok:
  assumes "\<not> bind_fails f" and "\<not> insert_message_fails f"
  shows "sendMessageHandler f msg s =
    (\<lparr>status = StatusCreated, payload = MessageBody (msg\<lparr>ID := fmt_d (next_id (db s))\<rparr>)\<rparr>,
     handleMessages f (msg\<lparr>ID := fmt_d (next_id (db s))\<rparr>)
       (s\<lparr>db := snd (insert_message (db s) (Sender msg) (Receiver msg) (Content msg))\<rparr>))"
  using assms by (simp add: sendMessageHandler_def insert_message_def Let_def)

lemma sendMessageHandler_failed:
  assumes "bind_fails f \<or> insert_message_fails f"
  shows "snd (sendMessageHandler f msg s) = s"
    and "status (fst (sendMessageHandler f msg s)) \<noteq> StatusCreated"
  using assms
  by (auto simp: sendMessageHandler_def json_error_def StatusBadRequest_def
        StatusInternalServerError_def StatusCreated_def)

lemma voteHandler_rdb:
  assumes "statements_ok f" and "select_counts (messages (db s)) m = Some (up, down)"
  shows "rdb (snd (voteHandler branch f u raw m s)) =
           rdb (cache_votes f raw (up + upvotes_change branch u m (db s))
                  (down + downvotes_change branch u m (db s)) s)"
proof (cases "commit_fails f")
  case True
  with assms show ?thesis by (simp add: voteHandler_commit_failed)
next
  case False
  with assms(1) have "tx_ok f" by (simp add: tx_ok_iff)
  with assms(2) show ?thesis by (simp add: voteHandler_committed cache_votes_def)
qed

lemma select_message_tx_result:
  assumes "select_message (messages (db s)) m = Some M"
  shows "select_message (messages (tx_result branch u m (db s))) m =
           Some (M\<lparr>Upvotes := Upvotes M + upvotes_change branch u m (db s),
                   Downvotes := Downvotes M + downvotes_change branch u m (db s)\<rparr>)"
proof -
  have "messages (tx_result branch u m (db s)) =
          update_counts (messages (db s)) (upvotes_change branch u m (db s))
            (downvotes_change branch u m (db s)) m"
    by (simp add: tx_result_def upvotes_change_def downvotes_change_def split: prod.splits)
  with assms show ?thesis by (simp add: select_message_update_counts)
qed

section \<open>The claims\<close>

text \<open>
  Claim C1. For every user, message and requested vote type, when the statements of the
  transaction succeed, \<^verbatim>\<open>castVote\<close> answers 200 and follows the toggle machine of the
  specification: the vote state of the pair becomes the machine's next state, the two
  counters of the message move by the machine's deltas, and no other field of the
  message changes.
\<close>

theorem castVote_toggle:
  assumes ok: "tx_ok f"
    and valid: "valid_vote_types (user_votes (db s))"
    and msg: "select_message (messages (db s)) m = Some M"
    and spec: "toggle_spec (vote_state_of (user_votes (db s)) u m) t = (q', du, dd)"
    and call: "castVote f u raw m t s = (r, s')"
  shows "status r = StatusOK \<and>
         vote_state_of (user_votes (db s')) u m = q' \<and>
         select_message (messages (db s')) m =
           Some (M\<lparr>Upvotes := Upvotes M + du, Downvotes := Downvotes M + dd\<rparr>)"
  using castVote_step(1,2,3)[OF ok valid msg spec, of raw] call by simp

theorem castVote_toggle_witness:
  "tx_ok no_faults \<and> valid_vote_types (user_votes (db m7_state)) \<and>
   select_message (messages (db m7_state)) 7 = Some m7 \<and>
   toggle_spec (vote_state_of (user_votes (db m7_state)) ''dave'' 7) upvote = (UPVOTED, 1, - 1) \<and>
   status (fst (castVote no_faults ''dave'' ''7'' 7 upvote m7_state)) = StatusOK \<and>
   vote_state_of (user_votes (db (snd (castVote no_faults ''dave'' ''7'' 7 upvote m7_state)))) ''dave'' 7
     = UPVOTED \<and>
   select_message (messages (db (snd (castVote no_faults ''dave'' ''7'' 7 upvote m7_state)))) 7
     = Some (m7\<lparr>Upvotes := 3, Downvotes := 0\<rparr>)"
proof -
  have h1: "tx_ok no_faults" by (simp add: tx_ok_def no_faults_def)
  have h2: "valid_vote_types (user_votes (db m7_state))"
    by (simp add: valid_vote_types_def m7_state_def)
  have h3: "select_message (messages (db m7_state)) 7 = Some m7"
    by (simp add: select_message_def m7_state_def m7_def scan_message_def fmt_d_def
          digits.simps digit_char_def)
  have h4: "toggle_spec (vote_state_of (user_votes (db m7_state)) ''dave'' 7) upvote
              = (UPVOTED, 1, - 1)"
    by (simp add: vote_state_of_def select_vote_type_def vote_matches_def m7_state_def)
  have h5: "castVote no_faults ''dave'' ''7'' 7 upvote m7_state =
              (fst (castVote no_faults ''dave'' ''7'' 7 upvote m7_state),
               snd (castVote no_faults ''dave'' ''7'' 7 upvote m7_state))"
    by simp
  from castVote_toggle[OF h1 h2 h3 h4 h5] h1 h2 h3 h4 show ?thesis
    by (simp add: m7_def)
qed

text \<open>
  Claim C2. From a database that satisfies the ledger invariant (the empty database
  does), after any sequence of handler calls under any failures, every stored message
  has \<^verbatim>\<open>upvotes\<close> equal to the number of its upvote records and \<^verbatim>\<open>downvotes\<close> equal to
  the number of its downvote records, every (user, message) pair has at most one vote
  record, \<^verbatim>\<open>upvotes + downvotes\<close> is the number of users whose vote state on the message
  is not NONE, and both counters are non-negative.
\<close>

theorem tallies_after_any_run:
  assumes "ledger_inv (db s)"
  shows "tally_ok (db (run calls s))"
  using assms by (intro ledger_inv_tally_ok ledger_inv_run)

theorem tallies_after_any_run_witness:
  "ledger_inv (db init_state) \<and>
   select_counts
     (messages (db (run [SendMessage no_faults note_to_self,
                         CastVote no_faults ''alice'' ''1'' 1 upvote,
                         CastVote no_faults ''bob'' ''1'' 1 downvote,
                         CastVote (no_faults\<lparr>commit_fails := True\<rparr>) ''carol'' ''1'' 1 upvote,
                         CastVote no_faults ''alice'' ''1'' 1 downvote] init_state))) 1 = Some (0, 2) \<and>
   card {u. vote_state_of
              (user_votes (db (run [SendMessage no_faults note_to_self,
                         CastVote no_faults ''alice'' ''1'' 1 upvote,
                         CastVote no_faults ''bob'' ''1'' 1 downvote,
                         CastVote (no_faults\<lparr>commit_fails := True\<rparr>) ''carol'' ''1'' 1 upvote,
                         CastVote no_faults ''alice'' ''1'' 1 downvote] init_state))) u 1 \<noteq> NONE} = 2"
proof -
  let ?d = "db (run [SendMessage no_faults note_to_self,
                         CastVote no_faults ''alice'' ''1'' 1 upvote,
                         CastVote no_faults ''bob'' ''1'' 1 downvote,
                         CastVote (no_faults\<lparr>commit_fails := True\<rparr>) ''carol'' ''1'' 1 upvote,
                         CastVote no_faults ''alice'' ''1'' 1 downvote] init_state)"
  have h: "ledger_inv (db init_state)"
    by (simp add: ledger_inv_def init_state_def valid_vote_types_def)
  have ms: "messages ?d = [\<lparr>m_id = 1, m_sender = ''alice'', m_receiver = ''alice'',
                            m_content = ''todo'', m_upvotes = 0, m_downvotes = 2\<rparr>]"
    by (simp add: eval_defs)
  from tallies_after_any_run[OF h] have "tally_ok ?d" .
  then have "int (card {u. vote_state_of (user_votes ?d) u 1 \<noteq> NONE}) = 2"
    unfolding tally_ok_def ms by simp
  then have "card {u. vote_state_of (user_votes ?d) u 1 \<noteq> NONE} = 2" by linarith
  moreover have "select_counts (messages ?d) 1 = Some (0, 2)"
    unfolding ms by (simp add: select_counts_def)
  ultimately show ?thesis using h by simp
qed

text \<open>
  Claim C3, as the code has it. The claim fails from the state DOWNVOTED: the first
  upvote switches the vote (one downvote less, one upvote more) and the second clears
  it, so the pair ends in NONE with one downvote less than before.
\<close>

theorem double_upvote_counterexample:
  "vote_state_of (user_votes (db m7_state)) ''dave'' 7 = DOWNVOTED \<and>
   select_counts (messages (db m7_state)) 7 = Some (2, 1) \<and>
   select_counts
     (messages (db (snd (castVote no_faults ''dave'' ''7'' 7 upvote
                      (snd (castVote no_faults ''dave'' ''7'' 7 upvote m7_state)))))) 7 = Some (2, 0) \<and>
   vote_state_of
     (user_votes (db (snd (castVote no_faults ''dave'' ''7'' 7 upvote
                      (snd (castVote no_faults ''dave'' ''7'' 7 upvote m7_state)))))) ''dave'' 7 = NONE"
  by (simp add: eval_defs)

text \<open>
  Claim C3, amended. When the vote state of the pair is NONE or UPVOTED and the
  statements of both transactions succeed, two upvotes in sequence leave the message
  (both counters) and the vote state of the pair as they were; in between, the upvotes
  are one more (from NONE) or one less (from UPVOTED). On the message with upvotes 2 and
  downvotes 1 and no vote from the user this gives 3 and 1, then 2 and 1 again.
\<close>

theorem double_upvote_restores:
  assumes ok1: "tx_ok f1" and ok2: "tx_ok f2"
    and valid: "valid_vote_types (user_votes (db s))"
    and msg: "select_message (messages (db s)) m = Some M"
    and start: "vote_state_of (user_votes (db s)) u m \<noteq> DOWNVOTED"
    and s1: "s1 = snd (castVote f1 u raw m upvote s)"
    and s2: "s2 = snd (castVote f2 u raw m upvote s1)"
  shows "status (fst (castVote f1 u raw m upvote s)) = StatusOK \<and>
         status (fst (castVote f2 u raw m upvote s1)) = StatusOK \<and>
         select_message (messages (db s1)) m =
           Some (M\<lparr>Upvotes := Upvotes M +
                      (if vote_state_of (user_votes (db s)) u m = NONE then 1 else - 1)\<rparr>) \<and>
         select_message (messages (db s2)) m = Some M \<and>
         vote_state_of (user_votes (db s2)) u m = vote_state_of (user_votes (db s)) u m"
proof (cases "vote_state_of (user_votes (db s)) u m")
  case NONE
  then have spec1: "toggle_spec (vote_state_of (user_votes (db s)) u m) upvote = (UPVOTED, 1, 0)"
    by simp
  note a = castVote_step[OF ok1 valid msg spec1, of raw, folded s1]
  from a(2) have spec2: "toggle_spec (vote_state_of (user_votes (db s1)) u m) upvote = (NONE, - 1, 0)"
    by simp
  note b = castVote_step[OF ok2 a(4) a(3) spec2, of raw, folded s2]
  from a b NONE show ?thesis by simp
next
  case UPVOTED
  then have spec1: "toggle_spec (vote_state_of (user_votes (db s)) u m) upvote = (NONE, - 1, 0)"
    by simp
  note a = castVote_step[OF ok1 valid msg spec1, of raw, folded s1]
  from a(2) have spec2: "toggle_spec (vote_state_of (user_votes (db s1)) u m) upvote = (UPVOTED, 1, 0)"
    by simp
  note b = castVote_step[OF ok2 a(4) a(3) spec2, of raw, folded s2]
  from a b UPVOTED show ?thesis by simp
next
  case DOWNVOTED
  with start show ?thesis by simp
qed

theorem double_upvote_restores_witness:
  "tx_ok no_faults \<and> valid_vote_types (user_votes (db m7_state)) \<and>
   select_message (messages (db m7_state)) 7 = Some m7 \<and>
   vote_state_of (user_votes (db m7_state)) ''alice'' 7 = NONE \<and>
   Upvotes m7 = 2 \<and> Downvotes m7 = 1 \<and>
   select_message (messages (db (snd (castVote no_faults ''alice'' ''7'' 7 upvote m7_state)))) 7
     = Some (m7\<lparr>Upvotes := 3\<rparr>) \<and>
   select_message
     (messages (db (snd (castVote no_faults ''alice'' ''7'' 7 upvote
                      (snd (castVote no_faults ''alice'' ''7'' 7 upvote m7_state)))))) 7 = Some m7 \<and>
   vote_state_of
     (user_votes (db (snd (castVote no_faults ''alice'' ''7'' 7 upvote
                      (snd (castVote no_faults ''alice'' ''7'' 7 upvote m7_state)))))) ''alice'' 7 = NONE"
proof -
  have h1: "tx_ok no_faults" by (simp add: tx_ok_def no_faults_def)
  have h2: "valid_vote_types (user_votes (db m7_state))"
    by (simp add: valid_vote_types_def m7_state_def)
  have h3: "select_message (messages (db m7_state)) 7 = Some m7"
    by (simp add: select_message_def m7_state_def m7_def scan_message_def fmt_d_def
          digits.simps digit_char_def)
  have h4: "vote_state_of (user_votes (db m7_state)) ''alice'' 7 = NONE"
    by (simp add: vote_state_of_def select_vote_type_def vote_matches_def m7_state_def)
  then have h5: "vote_state_of (user_votes (db m7_state)) ''alice'' 7 \<noteq> DOWNVOTED" by simp
  from double_upvote_restores[OF h1 h1 h2 h3 h5 refl refl, of "''7''"] h1 h2 h3 h4 show ?thesis
    by (simp add: m7_def)
qed

text \<open>
  Claim C4, as the code has it. Both handlers write the cache before \<^verbatim>\<open>tx.Commit()\<close>
  (lines 579-582 and 659-662), so when the commit fails the ledger is unchanged while
  the cache already holds the counters of the transaction that was dropped.
\<close>

theorem cache_before_commit_counterexample:
  "status (fst (castVote (no_faults\<lparr>commit_fails := True\<rparr>) ''alice'' ''7'' 7 upvote m7_state))
     = StatusInternalServerError \<and>
   db (snd (castVote (no_faults\<lparr>commit_fails := True\<rparr>) ''alice'' ''7'' 7 upvote m7_state))
     = db m7_state \<and>
   rdb m7_state (cache_key ''7'') ''upvotes'' = None \<and>
   rdb (snd (castVote (no_faults\<lparr>commit_fails := True\<rparr>) ''alice'' ''7'' 7 upvote m7_state))
     (cache_key ''7'') ''upvotes'' = Some 3"
  by (simp add: eval_defs)

text \<open>
  Claim C4, amended. In every \<^verbatim>\<open>castVote\<close> call a failure of either cache write changes
  neither the caller's result nor the ledger, the registry or the deliveries. The cache
  is written only once every statement of the transaction has succeeded, so a failure
  of an earlier statement leaves the cache unchanged. Once they have succeeded it is
  written, before the commit is attempted and whatever the commit then does: the cache
  after the call is the cache before it with the two writes (each unless it fails) of
  the counters of the transaction's result under the key of the path text. When the
  commit succeeds that result is the ledger, so the entry holds the message's new
  counters; when it fails the ledger is as before and the caller gets 500.
\<close>

theorem cache_write_of_vote:
  "fst (castVote (f\<lparr>hset_upvotes_fails := a, hset_downvotes_fails := b\<rparr>) u raw m t s)
     = fst (castVote f u raw m t s) \<and>
   same_but_cache (snd (castVote (f\<lparr>hset_upvotes_fails := a, hset_downvotes_fails := b\<rparr>) u raw m t s))
     (snd (castVote f u raw m t s)) \<and>
   (rdb (snd (castVote f u raw m t s)) \<noteq> rdb s \<longrightarrow>
      statements_ok f \<and> select_counts (messages (db s)) m \<noteq> None) \<and>
   (statements_ok f \<and> select_counts (messages (db s)) m \<noteq> None \<longrightarrow>
      (\<exists>M'. select_message (messages (tx_result (vote_branch_of t) u m (db s))) m = Some M' \<and>
            rdb (snd (castVote f u raw m t s)) =
              HSet (hset_downvotes_fails f)
                (HSet (hset_upvotes_fails f) (rdb s) (cache_key raw) ''upvotes'' (Upvotes M'))
                (cache_key raw) ''downvotes'' (Downvotes M'))) \<and>
   (statements_ok f \<and> select_counts (messages (db s)) m \<noteq> None \<longrightarrow>
      db (snd (castVote f u raw m t s)) =
        (if commit_fails f then db s else tx_result (vote_branch_of t) u m (db s)) \<and>
      status (fst (castVote f u raw m t s)) =
        (if commit_fails f then StatusInternalServerError else StatusOK)) \<and>
   (tx_ok f \<and> \<not> hset_upvotes_fails f \<and> \<not> hset_downvotes_fails f \<and>
    select_counts (messages (db s)) m \<noteq> None \<longrightarrow>
      (\<exists>M'. select_message (messages (db (snd (castVote f u raw m t s)))) m = Some M' \<and>
            rdb (snd (castVote f u raw m t s)) (cache_key raw) =
              (rdb s (cache_key raw))(''upvotes'' \<mapsto> Upvotes M', ''downvotes'' \<mapsto> Downvotes M')))"
proof -
  let ?f' = "f\<lparr>hset_upvotes_fails := a, hset_downvotes_fails := b\<rparr>"
  let ?b = "vote_branch_of t"
  let ?s' = "snd (castVote f u raw m t s)"
  note o = voteHandler_outcome[of ?b f u raw m s] and o' = voteHandler_outcome[of ?b ?f' u raw m s]
  have 1: "fst (castVote ?f' u raw m t s) = fst (castVote f u raw m t s)"
    unfolding castVote_eq
    by (simp add: voteHandler_def Let_def split: option.splits prod.splits)
  have 2: "same_but_cache (snd (castVote ?f' u raw m t s)) ?s'"
    unfolding castVote_eq same_but_cache_def using o o'
    by (auto simp: broadcast_updated_hset_faults)
  have 3: "rdb ?s' \<noteq> rdb s \<longrightarrow> statements_ok f \<and> select_counts (messages (db s)) m \<noteq> None"
    unfolding castVote_eq using o by auto
  have written: "\<exists>M'. select_message (messages (tx_result ?b u m (db s))) m = Some M' \<and>
            rdb ?s' =
              HSet (hset_downvotes_fails f)
                (HSet (hset_upvotes_fails f) (rdb s) (cache_key raw) ''upvotes'' (Upvotes M'))
                (cache_key raw) ''downvotes'' (Downvotes M')"
    and outcome: "db ?s' = (if commit_fails f then db s else tx_result ?b u m (db s)) \<and>
      status (fst (castVote f u raw m t s)) =
        (if commit_fails f then StatusInternalServerError else StatusOK)"
    if so: "statements_ok f" and c: "select_counts (messages (db s)) m \<noteq> None"
  proof -
    from c obtain M where M: "select_message (messages (db s)) m = Some M"
      by (auto simp: select_counts_message)
    then have c': "select_counts (messages (db s)) m = Some (Upvotes M, Downvotes M)"
      by (simp add: select_counts_message)
    have "rdb ?s' =
            rdb (cache_votes f raw (Upvotes M + upvotes_change ?b u m (db s))
                   (Downvotes M + downvotes_change ?b u m (db s)) s)"
      unfolding castVote_eq using so c' by (rule voteHandler_rdb)
    then show "\<exists>M'. select_message (messages (tx_result ?b u m (db s))) m = Some M' \<and>
            rdb ?s' =
              HSet (hset_downvotes_fails f)
                (HSet (hset_upvotes_fails f) (rdb s) (cache_key raw) ''upvotes'' (Upvotes M'))
                (cache_key raw) ''downvotes'' (Downvotes M')"
      using select_message_tx_result[OF M, of ?b u] by (simp add: cache_votes_def)
    show "db ?s' = (if commit_fails f then db s else tx_result ?b u m (db s)) \<and>
      status (fst (castVote f u raw m t s)) =
        (if commit_fails f then StatusInternalServerError else StatusOK)"
    proof (cases "commit_fails f")
      case True
      with so c' show ?thesis
        by (simp add: castVote_eq voteHandler_commit_failed json_error_def)
    next
      case False
      with so have "tx_ok f" by (simp add: tx_ok_iff)
      with c' False show ?thesis
        by (simp add: castVote_eq voteHandler_committed)
    qed
  qed
  have 4: "\<exists>M'. select_message (messages (db ?s')) m = Some M' \<and>
            rdb ?s' (cache_key raw) =
              (rdb s (cache_key raw))(''upvotes'' \<mapsto> Upvotes M', ''downvotes'' \<mapsto> Downvotes M')"
    if ok: "tx_ok f" and h: "\<not> hset_upvotes_fails f" "\<not> hset_downvotes_fails f"
      and c: "select_counts (messages (db s)) m \<noteq> None"
  proof -
    from ok have so: "statements_ok f" and nc: "\<not> commit_fails f" by (simp_all add: tx_ok_iff)
    from written[OF so c] obtain M' where
      M': "select_message (messages (tx_result ?b u m (db s))) m = Some M'"
      and r: "rdb ?s' =
              HSet (hset_downvotes_fails f)
                (HSet (hset_upvotes_fails f) (rdb s) (cache_key raw) ''upvotes'' (Upvotes M'))
                (cache_key raw) ''downvotes'' (Downvotes M')"
      by blast
    from outcome[OF so c] nc have "db ?s' = tx_result ?b u m (db s)" by simp
    with M' r h show ?thesis by (simp add: HSet_def)
  qed
  from 1 2 3 written outcome 4 show ?thesis by blast
qed


theorem cache_write_of_vote_witness:
  "statements_ok (no_faults\<lparr>commit_fails := True\<rparr>) \<and>
   commit_fails (no_faults\<lparr>commit_fails := True\<rparr>) \<and>
   select_counts (messages (db m7_state)) 7 \<noteq> None \<and>
   rdb (snd (castVote (no_faults\<lparr>commit_fails := True\<rparr>) ''alice'' ''007'' 7 upvote m7_state))
     (cache_key ''007'') = [''upvotes'' \<mapsto> 3, ''downvotes'' \<mapsto> 1] \<and>
   rdb (snd (castVote (no_faults\<lparr>commit_fails := True\<rparr>) ''alice'' ''007'' 7 upvote m7_state))
     (cache_key ''7'') = Map.empty \<and>
   db (snd (castVote (no_faults\<lparr>commit_fails := True\<rparr>) ''alice'' ''007'' 7 upvote m7_state))
     = db m7_state \<and>
   status (fst (castVote (no_faults\<lparr>commit_fails := True\<rparr>) ''alice'' ''007'' 7 upvote m7_state))
     = StatusInternalServerError \<and>
   fst (castVote (no_faults\<lparr>hset_upvotes_fails := True, hset_downvotes_fails := True\<rparr>)
          ''alice'' ''7'' 7 upvote m7_state)
     = fst (castVote no_faults ''alice'' ''7'' 7 upvote m7_state) \<and>
   rdb (snd (castVote no_faults ''alice'' ''7'' 7 upvote m7_state)) \<noteq> rdb m7_state \<and>
   tx_ok no_faults \<and> \<not> hset_upvotes_fails no_faults \<and> \<not> hset_downvotes_fails no_faults \<and>
   (\<exists>M'. select_message (messages (db (snd (castVote no_faults ''alice'' ''7'' 7 upvote m7_state)))) 7
           = Some M' \<and>
         rdb (snd (castVote no_faults ''alice'' ''7'' 7 upvote m7_state)) (cache_key ''7'') =
           (rdb m7_state (cache_key ''7''))(''upvotes'' \<mapsto> Upvotes M', ''downvotes'' \<mapsto> Downvotes M'))"
proof -
  let ?g = "no_faults\<lparr>commit_fails := True\<rparr>"
  let ?s' = "snd (castVote ?g ''alice'' ''007'' 7 upvote m7_state)"
  have g: "statements_ok ?g" "commit_fails ?g" "hset_upvotes_fails ?g = False"
    "hset_downvotes_fails ?g = False"
    by (simp_all add: statements_ok_def no_faults_def)
  have c: "select_counts (messages (db m7_state)) 7 \<noteq> None"
    by (simp add: select_counts_def m7_state_def)
  have tx: "select_message (messages (tx_result (vote_branch_of upvote) ''alice'' 7 (db m7_state))) 7
              = Some (m7\<lparr>Upvotes := 3\<rparr>)"
    by (simp add: tx_result_def eval_defs)
  note A = cache_write_of_vote[where f = ?g and a = True and b = True and u = "''alice''"
      and raw = "''007''" and m = 7 and t = upvote and s = m7_state]
  from A g(1) c tx have r: "rdb ?s' =
      HSet False (HSet False (rdb m7_state) (cache_key ''007'') ''upvotes'' 3)
        (cache_key ''007'') ''downvotes'' 1"
    unfolding g(3,4) by (auto simp: m7_def)
  have r1: "rdb ?s' (cache_key ''007'') = [''upvotes'' \<mapsto> 3, ''downvotes'' \<mapsto> 1]"
    and r2: "rdb ?s' (cache_key ''7'') = Map.empty"
    unfolding r by (simp_all add: HSet_def cache_key_def m7_state_def)
  from A g(1,2) c have d: "db ?s' = db m7_state"
    and st: "status (fst (castVote ?g ''alice'' ''007'' 7 upvote m7_state)) = StatusInternalServerError"
    by simp_all
  note B = cache_write_of_vote[where f = no_faults and a = True and b = True and u = "''alice''"
      and raw = "''7''" and m = 7 and t = upvote and s = m7_state]
  have a: "rdb (snd (castVote no_faults ''alice'' ''7'' 7 upvote m7_state)) (cache_key ''7'') ''upvotes''
             = Some 3"
    by (simp add: eval_defs)
  have b: "rdb m7_state (cache_key ''7'') ''upvotes'' = None"
    by (simp add: m7_state_def)
  from a b have h1: "rdb (snd (castVote no_faults ''alice'' ''7'' 7 upvote m7_state)) \<noteq> rdb m7_state"
    by auto
  have h2: "tx_ok no_faults \<and> \<not> hset_upvotes_fails no_faults \<and>
            \<not> hset_downvotes_fails no_faults"
    by (simp add: tx_ok_def no_faults_def)
  from B h1 h2 c g(1,2) r1 r2 d st
  show ?thesis by blast
qed

text \<open>
  Claim C5, as the code has it. A vote on a message that does not exist is answered
  with \<^verbatim>\<open>http.StatusInternalServerError\<close> and the text of the failed query, the very
  response a store failure on that query gets for an existing message; it is not a
  NotFound response.
\<close>

theorem vote_on_missing_message_counterexample:
  "select_message (messages (db m7_state)) 9 = None \<and>
   status (fst (castVote no_faults ''alice'' ''9'' 9 upvote m7_state)) = StatusInternalServerError \<and>
   status (fst (castVote no_faults ''alice'' ''9'' 9 upvote m7_state)) \<noteq> StatusNotFound \<and>
   fst (castVote no_faults ''alice'' ''9'' 9 upvote m7_state) =
     fst (castVote (no_faults\<lparr>select_counts_fails := True\<rparr>) ''alice'' ''7'' 7 upvote m7_state)"
  by (simp add: eval_defs)

text \<open>
  Claim C5, amended. When no message with the id exists, \<^verbatim>\<open>castVote\<close> fails with status
  500 (with the text "Failed to fetch message votes" once the transaction began and
  the vote query worked), and the whole state is as before: no vote record, counter,
  cache entry, registry entry or delivery is created or changed.
\<close>

theorem vote_on_missing_message:
  assumes "\<forall>r \<in> set (messages (db s)). m_id r \<noteq> m"
  shows "status (fst (castVote f u raw m t s)) = StatusInternalServerError \<and>
         snd (castVote f u raw m t s) = s \<and>
         (\<not> begin_fails f \<and> \<not> select_vote_fails f \<longrightarrow>
            payload (fst (castVote f u raw m t s)) = ErrorBody ''Failed to fetch message votes'')"
proof -
  from assms have "find (\<lambda>r. m_id r = m) (messages (db s)) = None"
    by (auto simp: find_None_iff)
  then have none: "select_counts (messages (db s)) m = None"
    by (simp add: select_counts_def)
  then obtain e where e: "voteHandler (vote_branch_of t) f u raw m s =
      (json_error StatusInternalServerError e, s)"
    using voteHandler_early[of f s m "vote_branch_of t" u] by blast
  have "payload (fst (voteHandler (vote_branch_of t) f u raw m s)) =
          ErrorBody ''Failed to fetch message votes''"
    if "\<not> begin_fails f" "\<not> select_vote_fails f"
    using that none by (simp add: voteHandler_def json_error_def Let_def)
  with e show ?thesis by (simp add: castVote_eq json_error_def)
qed

theorem vote_on_missing_message_witness:
  "select_message (messages (db m7_state)) 9 = None \<and>
   \<not> begin_fails no_faults \<and> \<not> select_vote_fails no_faults \<and>
   fst (castVote no_faults ''alice'' ''9'' 9 downvote m7_state) =
     \<lparr>status = StatusInternalServerError,
      payload = ErrorBody ''Failed to fetch message votes''\<rparr> \<and>
   snd (castVote no_faults ''alice'' ''9'' 9 downvote m7_state) = m7_state"
proof -
  have h: "\<forall>r \<in> set (messages (db m7_state)). m_id r \<noteq> 9"
    by (simp add: m7_state_def)
  have g: "\<not> begin_fails no_faults \<and> \<not> select_vote_fails no_faults"
    by (simp add: no_faults_def)
  have n: "select_message (messages (db m7_state)) 9 = None"
    by (simp add: select_message_def m7_state_def)
  from vote_on_missing_message[OF h, of no_faults "''alice''" "''9''" downvote] n g
  show ?thesis by (cases "fst (castVote no_faults ''alice'' ''9'' 9 downvote m7_state)") simp
qed

text \<open>
  Claim C6, as the code has it. Registering a second connection for a user overwrites
  the map entry (line 441) and nothing closes the first connection. Its handler keeps
  running, and when its read fails it deletes the entry of the user, which by then
  belongs to the second connection.
\<close>

theorem registry_counterexample:
  "clients (wsHandler_register ''alice'' 2 (wsHandler_register ''alice'' 1 init_state)) ''alice''
     = Some \<lparr>UserID = ''alice'', Conn = 2\<rparr> \<and>
   1 \<notin> closed (wsHandler_register ''alice'' 2 (wsHandler_register ''alice'' 1 init_state)) \<and>
   clients (wsHandler_read_error ''alice'' 1
             (wsHandler_register ''alice'' 2 (wsHandler_register ''alice'' 1 init_state))) ''alice''
     = None \<and>
   2 \<notin> closed (wsHandler_read_error ''alice'' 1
             (wsHandler_register ''alice'' 2 (wsHandler_register ''alice'' 1 init_state)))"
  by (simp add: wsHandler_register_def wsHandler_read_error_def init_state_def)

text \<open>
  Claim C6, amended. The registry is a Go map, so it holds at most one entry per user
  id. Registering installs the new connection as the entry of the user, whether or not
  there was one, leaves every other entry alone and closes no connection; the
  deregistration of a user removes the entry of that user, leaves every other entry
  alone, and changes nothing in the registry when there was no entry.
\<close>

theorem registry_register_deregister:
  "clients (wsHandler_register u c s) u = Some \<lparr>UserID = u, Conn = c\<rparr> \<and>
   (\<forall>u'. u' \<noteq> u \<longrightarrow> clients (wsHandler_register u c s) u' = clients s u') \<and>
   closed (wsHandler_register u c s) = closed s \<and>
   clients (wsHandler_read_error u c s) u = None \<and>
   (\<forall>u'. u' \<noteq> u \<longrightarrow> clients (wsHandler_read_error u c s) u' = clients s u') \<and>
   (clients s u = None \<longrightarrow> clients (wsHandler_read_error u c s) = clients s)"
  by (simp add: wsHandler_register_def wsHandler_read_error_def fun_upd_idem)

theorem registry_register_deregister_witness:
  "''bob'' \<noteq> ''alice'' \<and> clients m7_state ''carol'' = None \<and>
   clients (wsHandler_register ''alice'' 5 m7_state) ''alice'' = Some \<lparr>UserID = ''alice'', Conn = 5\<rparr> \<and>
   clients (wsHandler_register ''alice'' 5 m7_state) ''bob'' = clients m7_state ''bob'' \<and>
   closed (wsHandler_register ''alice'' 5 m7_state) = closed m7_state \<and>
   clients (wsHandler_read_error ''alice'' 1 m7_state) ''alice'' = None \<and>
   clients (wsHandler_read_error ''alice'' 1 m7_state) ''bob'' = clients m7_state ''bob'' \<and>
   clients (wsHandler_read_error ''carol'' 3 m7_state) = clients m7_state"
proof -
  have h1: "''bob'' \<noteq> ''alice''" by simp
  have h2: "clients m7_state ''carol'' = None" by (simp add: m7_state_def)
  from registry_register_deregister[of "''alice''" 5 m7_state]
    registry_register_deregister[of "''alice''" 1 m7_state]
    registry_register_deregister[of "''carol''" 3 m7_state] h1 h2
  show ?thesis by simp
qed

text \<open>
  Claim C7, as the code has it. \<^verbatim>\<open>handleMessages\<close> pushes once for the sender and once
  for the receiver without comparing them, so a registered user who sends a message to
  themselves gets two delivery events for it.
\<close>

theorem self_message_counterexample:
  "clients m7_state ''alice'' = Some \<lparr>UserID = ''alice'', Conn = 1\<rparr> \<and>
   Sender note_to_self = ''alice'' \<and> Receiver note_to_self = ''alice'' \<and>
   status (fst (sendMessageHandler no_faults note_to_self m7_state)) = StatusCreated \<and>
   sent m7_state = [] \<and>
   sent (snd (sendMessageHandler no_faults note_to_self m7_state)) =
     [(1, note_to_self\<lparr>ID := ''8''\<rparr>), (1, note_to_self\<lparr>ID := ''8''\<rparr>)]"
  by (simp add: eval_defs)

text \<open>
  Claim C7, amended. For every \<^verbatim>\<open>sendMessage\<close> call that is bound and stored, with sender
  and receiver different users: the caller gets 201 with the message whatever happens
  to the pushes; each of the two participants that is registered and whose push
  succeeds gets exactly one delivery event, the sender's first; a participant that is
  not registered gets nothing; a participant whose push fails gets nothing, has its
  connection closed and its entry deleted, and is not tried again.
\<close>

theorem sendMessage_delivery:
  assumes "\<not> bind_fails f" and "\<not> insert_message_fails f"
    and "Sender msg \<noteq> Receiver msg"
    and "msg' = msg\<lparr>ID := fmt_d (next_id (db s))\<rparr>"
    and "s' = snd (sendMessageHandler f msg s)"
  shows "fst (sendMessageHandler f msg s) = \<lparr>status = StatusCreated, payload = MessageBody msg'\<rparr> \<and>
    sent s' = sent s @ pushed (sender_write_fails f) (clients s (Sender msg)) msg'
                     @ pushed (receiver_write_fails f) (clients s (Receiver msg)) msg' \<and>
    closed s' = closed s \<union> dropped (sender_write_fails f) (clients s (Sender msg))
                         \<union> dropped (receiver_write_fails f) (clients s (Receiver msg)) \<and>
    (\<forall>u. clients s' u =
       (if (u = Sender msg \<and> sender_write_fails f) \<or> (u = Receiver msg \<and> receiver_write_fails f)
        then None else clients s u))"
  using assms
  by (simp add: sendMessageHandler_ok handleMessages_effect receiver_entry_def)

theorem sendMessage_delivery_witness:
  "\<not> bind_fails no_faults \<and> \<not> insert_message_fails no_faults \<and>
   Sender forged \<noteq> Receiver forged \<and>
   clients m7_state (Sender forged) = None \<and>
   clients m7_state (Receiver forged) = Some \<lparr>UserID = ''alice'', Conn = 1\<rparr> \<and>
   status (fst (sendMessageHandler no_faults forged m7_state)) = StatusCreated \<and>
   sent (snd (sendMessageHandler no_faults forged m7_state)) = [(1, forged\<lparr>ID := ''8''\<rparr>)]"
proof -
  have h1: "\<not> bind_fails no_faults" and h2: "\<not> insert_message_fails no_faults"
    by (simp_all add: no_faults_def)
  have h3: "Sender forged \<noteq> Receiver forged" by (simp add: forged_def)
  have h4: "clients m7_state (Sender forged) = None"
    and h5: "clients m7_state (Receiver forged) = Some \<lparr>UserID = ''alice'', Conn = 1\<rparr>"
    by (simp_all add: m7_state_def forged_def)
  have h6: "fmt_d (next_id (db m7_state)) = ''8''"
    by (simp add: m7_state_def fmt_d_def digits.simps digit_char_def)
  have h7: "sent m7_state = []" "receiver_write_fails no_faults = False"
    by (simp_all add: m7_state_def no_faults_def)
  note d = sendMessage_delivery[OF h1 h2 h3 refl refl, of m7_state, unfolded h4 h5 h6 h7]
  have "status (fst (sendMessageHandler no_faults forged m7_state)) = StatusCreated"
    using d by simp
  moreover have "sent (snd (sendMessageHandler no_faults forged m7_state))
                   = [(1, forged\<lparr>ID := ''8''\<rparr>)]"
    using d by (simp add: pushed_def)
  ultimately show ?thesis using h1 h2 h3 h4 h5 by blast
qed

text \<open>
  Claim C9. For every \<^verbatim>\<open>sendMessage\<close> request that is bound and stored, the inserted row
  has \<^verbatim>\<open>upvotes = 0\<close> and \<^verbatim>\<open>downvotes = 0\<close>, while the message returned to the caller
  and pushed as the delivery event is the request body with only \<^verbatim>\<open>ID\<close> overwritten by
  the id of the new row: it carries the counters of the request, so non-zero counters
  in the request differ from the stored row.
\<close>

theorem sendMessage_counters:
  assumes "\<not> bind_fails f" and "\<not> insert_message_fails f"
    and "msg' = msg\<lparr>ID := fmt_d (next_id (db s))\<rparr>"
    and "s' = snd (sendMessageHandler f msg s)"
  shows "fst (sendMessageHandler f msg s) = \<lparr>status = StatusCreated, payload = MessageBody msg'\<rparr> \<and>
    messages (db s') = messages (db s) @
       [\<lparr>m_id = next_id (db s), m_sender = Sender msg, m_receiver = Receiver msg,
         m_content = Content msg, m_upvotes = 0, m_downvotes = 0\<rparr>] \<and>
    sent s' = sent s @ pushed (sender_write_fails f) (clients s (Sender msg)) msg'
                     @ pushed (receiver_write_fails f) (receiver_entry f msg s) msg' \<and>
    Upvotes msg' = Upvotes msg \<and> Downvotes msg' = Downvotes msg \<and>
    Sender msg' = Sender msg \<and> Receiver msg' = Receiver msg \<and> Content msg' = Content msg \<and>
    (Upvotes msg \<noteq> 0 \<longrightarrow> Upvotes msg' \<noteq> m_upvotes (last (messages (db s')))) \<and>
    (Downvotes msg \<noteq> 0 \<longrightarrow> Downvotes msg' \<noteq> m_downvotes (last (messages (db s'))))"
  using assms
  by (simp add: sendMessageHandler_ok sent_handleMessages receiver_entry_def insert_message_def)

theorem sendMessage_counters_witness:
  "\<not> bind_fails no_faults \<and> \<not> insert_message_fails no_faults \<and> Upvotes forged \<noteq> 0 \<and>
   fst (sendMessageHandler no_faults forged m7_state) =
     \<lparr>status = StatusCreated, payload = MessageBody (forged\<lparr>ID := ''8''\<rparr>)\<rparr> \<and>
   Upvotes (forged\<lparr>ID := ''8''\<rparr>) = 40 \<and>
   m_upvotes (last (messages (db (snd (sendMessageHandler no_faults forged m7_state))))) = 0 \<and>
   sent (snd (sendMessageHandler no_faults forged m7_state)) = [(1, forged\<lparr>ID := ''8''\<rparr>)]"
proof -
  have h1: "\<not> bind_fails no_faults" and h2: "\<not> insert_message_fails no_faults"
    by (simp_all add: no_faults_def)
  have h3: "Upvotes forged \<noteq> 0" "Upvotes forged = 40" by (simp_all add: forged_def)
  have h4: "fmt_d (next_id (db m7_state)) = ''8''"
    by (simp add: m7_state_def fmt_d_def digits.simps digit_char_def)
  have h5: "clients m7_state (Sender forged) = None"
    "receiver_entry no_faults forged m7_state = Some \<lparr>UserID = ''alice'', Conn = 1\<rparr>"
    "sent m7_state = []" "receiver_write_fails no_faults = False"
    by (simp_all add: m7_state_def forged_def receiver_entry_def no_faults_def)
  note d = sendMessage_counters[OF h1 h2 refl refl, of forged m7_state, unfolded h4 h5]
  have "m_upvotes (last (messages (db (snd (sendMessageHandler no_faults forged m7_state))))) = 0"
    using d by simp
  moreover have "sent (snd (sendMessageHandler no_faults forged m7_state))
                   = [(1, forged\<lparr>ID := ''8''\<rparr>)]"
    using d by (simp add: pushed_def)
  moreover have "fst (sendMessageHandler no_faults forged m7_state) =
     \<lparr>status = StatusCreated, payload = MessageBody (forged\<lparr>ID := ''8''\<rparr>)\<rparr>"
    using d by simp
  ultimately show ?thesis using h1 h2 h3 by simp
qed

text \<open>
  Claim C10. A message read from a WebSocket connection is pushed as it is to the
  connections registered for the sender and the receiver named inside it, whichever
  user and connection wrote it; the database is not touched, so every later
  \<^verbatim>\<open>getMessagesHandler\<close> read answers what it answered before.
\<close>

theorem ws_message_forwarded:
  "sent (wsHandler_read f userID conn msg s) =
     sent s @ pushed (sender_write_fails f) (clients s (Sender msg)) msg
            @ pushed (receiver_write_fails f) (receiver_entry f msg s) msg \<and>
   db (wsHandler_read f userID conn msg s) = db s \<and>
   getMessagesHandler g a b (wsHandler_read f userID conn msg s) = getMessagesHandler g a b s \<and>
   wsHandler_read f userID conn msg s = wsHandler_read f userID' conn' msg s"
  by (simp add: wsHandler_read_def sent_handleMessages getMessagesHandler_def)

theorem ws_message_forwarded_witness:
  "clients m7_state ''bob'' = Some \<lparr>UserID = ''bob'', Conn = 2\<rparr> \<and> Sender forged = ''carol'' \<and>
   sent (wsHandler_read no_faults ''bob'' 2 forged m7_state) = [(1, forged)] \<and>
   getMessagesHandler no_faults ''carol'' ''alice'' (wsHandler_read no_faults ''bob'' 2 forged m7_state)
     = \<lparr>status = StatusOK, payload = MessagesBody []\<rparr>"
proof -
  have h: "clients m7_state ''bob'' = Some \<lparr>UserID = ''bob'', Conn = 2\<rparr>" "Sender forged = ''carol''"
    by (simp_all add: m7_state_def forged_def)
  have h5: "clients m7_state (Sender forged) = None"
    "receiver_entry no_faults forged m7_state = Some \<lparr>UserID = ''alice'', Conn = 1\<rparr>"
    "sent m7_state = []" "receiver_write_fails no_faults = False"
    by (simp_all add: m7_state_def forged_def receiver_entry_def no_faults_def)
  have g: "getMessagesHandler no_faults ''carol'' ''alice'' m7_state
             = \<lparr>status = StatusOK, payload = MessagesBody []\<rparr>"
    by (simp add: getMessagesHandler_def no_faults_def select_messages_def m7_state_def)
  note d = ws_message_forwarded[of no_faults "''bob''" 2 forged m7_state no_faults
             "''carol''" "''alice''", unfolded h5 g]
  have "sent (wsHandler_read no_faults ''bob'' 2 forged m7_state) = [(1, forged)]"
    using d[THEN conjunct1] by (simp add: pushed_def)
  moreover have "getMessagesHandler no_faults ''carol'' ''alice''
                   (wsHandler_read no_faults ''bob'' 2 forged m7_state)
                   = \<lparr>status = StatusOK, payload = MessagesBody []\<rparr>"
    using d[THEN conjunct2, THEN conjunct2, THEN conjunct1] by simp
  ultimately show ?thesis using h by simp
qed

end
